theory Spec2Isabelle
  imports Main "HOL-Library.AList"
begin

section \<open>Python values\<close>

text \<open>
  The pipeline moves parsed JSON between its stages (\<^verbatim>\<open>json.load\<close>, \<^verbatim>\<open>json.dump\<close>), so the
  values of the model are the values \<^verbatim>\<open>json.load\<close> can return: \<^verbatim>\<open>None\<close>, booleans, integers,
  strings, lists and dictionaries with string keys.  A dictionary is an association list in
  insertion order (Python dictionaries iterate in insertion order); its keys are pairwise
  distinct in every value Python can build.  Floating-point numbers are left out.  A
  character is a code point below 256.
\<close>

datatype json =
    JNull
  | JBool bool
  | JInt int
  | JStr string
  | JList "json list"
  | JDict "(string \<times> json) list"

text \<open>The exceptions the modelled code can raise; the argument is the key (KeyError) or the message.\<close>

datatype error =
    KeyError string
  | TypeError string
  | IndexError string
  | ValueError string
  | EOFError
  | ProviderError string

definition nl :: string where
  "nl = [CHR 0x0A]"

text \<open>\<^verbatim>\<open>sep.join(parts)\<close>\<close>

fun join :: "string \<Rightarrow> string list \<Rightarrow> string" where
  "join sep [] = []"
| "join sep [x] = x"
| "join sep (x # y # ys) = x @ sep @ join sep (y # ys)"

text \<open>Truthiness: \<^verbatim>\<open>bool(value)\<close>.\<close>

fun truthy :: "json \<Rightarrow> bool" where
  "truthy JNull = False"
| "truthy (JBool b) = b"
| "truthy (JInt i) = (i \<noteq> 0)"
| "truthy (JStr s) = (s \<noteq> [])"
| "truthy (JList xs) = (xs \<noteq> [])"
| "truthy (JDict kvs) = (kvs \<noteq> [])"

subsection \<open>Decimal and hexadecimal digits\<close>

definition digit_char :: "nat \<Rightarrow> char" where
  "digit_char n = ''0123456789abcdef'' ! n"

fun str_nat :: "nat \<Rightarrow> string" where
  "str_nat n = (if n < 10 then [digit_char n] else str_nat (n div 10) @ [digit_char (n mod 10)])"

declare str_nat.simps [simp del]

definition str_int :: "int \<Rightarrow> string" where
  "str_int i = (if i < 0 then CHR ''-'' # str_nat (nat (- i)) else str_nat (nat i))"

definition hex2 :: "char \<Rightarrow> string" where
  "hex2 c = [digit_char (of_char c div 16), digit_char (of_char c mod 16)]"

subsection \<open>\<^verbatim>\<open>repr\<close> and \<^verbatim>\<open>str\<close>\<close>

text \<open>
  \<^verbatim>\<open>repr\<close> of a string picks the double quote when the string holds a single quote and no
  double quote, and the single quote otherwise; it escapes the quote, the backslash, tab,
  newline and carriage return, and writes every other non-printable character as
  \<^verbatim>\<open>\xhh\<close>.
\<close>

definition repr_quote :: "string \<Rightarrow> char" where
  "repr_quote s = (if CHR 0x27 \<in> set s \<and> CHR 0x22 \<notin> set s then CHR 0x22 else CHR 0x27)"

definition is_printable :: "char \<Rightarrow> bool" where
  "is_printable c =
     (let n = (of_char c :: nat) in (32 \<le> n \<and> n < 127) \<or> (161 \<le> n \<and> n \<noteq> 173))"

definition repr_char :: "char \<Rightarrow> char \<Rightarrow> string" where
  "repr_char q c =
     (if c = q \<or> c = CHR 0x5C then [CHR 0x5C, c]
      else if c = CHR 0x09 then [CHR 0x5C, CHR ''t'']
      else if c = CHR 0x0A then [CHR 0x5C, CHR ''n'']
      else if c = CHR 0x0D then [CHR 0x5C, CHR ''r'']
      else if is_printable c then [c]
      else [CHR 0x5C, CHR ''x''] @ hex2 c)"

definition repr_str :: "string \<Rightarrow> string" where
  "repr_str s = (let q = repr_quote s in [q] @ concat (map (repr_char q) s) @ [q])"

fun py_repr :: "json \<Rightarrow> string" where
  "py_repr JNull = ''None''"
| "py_repr (JBool b) = (if b then ''True'' else ''False'')"
| "py_repr (JInt i) = str_int i"
| "py_repr (JStr s) = repr_str s"
| "py_repr (JList xs) = ''['' @ join '', '' (map py_repr xs) @ '']''"
| "py_repr (JDict kvs) =
     ''{'' @ join '', '' (map (\<lambda>(k, v). repr_str k @ '': '' @ py_repr v) kvs) @ ''}''"

text \<open>\<^verbatim>\<open>str(value)\<close>, which is also what an f-string field \<^verbatim>\<open>{value}\<close> inserts.\<close>

fun py_str :: "json \<Rightarrow> string" where
  "py_str (JStr s) = s"
| "py_str v = py_repr v"

text \<open>\<^verbatim>\<open>str(e)\<close> of an exception: a KeyError shows the \<^verbatim>\<open>repr\<close> of its key.\<close>

fun str_error :: "error \<Rightarrow> string" where
  "str_error (KeyError k) = repr_str k"
| "str_error (TypeError m) = m"
| "str_error (IndexError m) = m"
| "str_error (ValueError m) = m"
| "str_error EOFError = ''EOF when reading a line''"
| "str_error (ProviderError m) = m"

subsection \<open>\<^verbatim>\<open>json.dumps\<close> with its default arguments\<close>

text \<open>
  Separators are \<^verbatim>\<open>", "\<close> and \<^verbatim>\<open>": "\<close>, \<^verbatim>\<open>ensure_ascii\<close> is on: inside a string
  everything outside the range from the space to the tilde is escaped.
\<close>

definition dumps_char :: "char \<Rightarrow> string" where
  "dumps_char c =
     (if c = CHR 0x22 then [CHR 0x5C, CHR 0x22]
      else if c = CHR 0x5C then [CHR 0x5C, CHR 0x5C]
      else if c = CHR 0x0A then [CHR 0x5C, CHR ''n'']
      else if c = CHR 0x0D then [CHR 0x5C, CHR ''r'']
      else if c = CHR 0x09 then [CHR 0x5C, CHR ''t'']
      else if c = CHR 0x08 then [CHR 0x5C, CHR ''b'']
      else if c = CHR 0x0C then [CHR 0x5C, CHR ''f'']
      else if 32 \<le> (of_char c :: nat) \<and> (of_char c :: nat) \<le> 126 then [c]
      else [CHR 0x5C, CHR ''u'', CHR ''0'', CHR ''0''] @ hex2 c)"

definition dumps_str :: "string \<Rightarrow> string" where
  "dumps_str s = [CHR 0x22] @ concat (map dumps_char s) @ [CHR 0x22]"

fun json_dumps :: "json \<Rightarrow> string" where
  "json_dumps JNull = ''null''"
| "json_dumps (JBool b) = (if b then ''true'' else ''false'')"
| "json_dumps (JInt i) = str_int i"
| "json_dumps (JStr s) = dumps_str s"
| "json_dumps (JList xs) = ''['' @ join '', '' (map json_dumps xs) @ '']''"
| "json_dumps (JDict kvs) =
     ''{'' @ join '', '' (map (\<lambda>(k, v). dumps_str k @ '': '' @ json_dumps v) kvs) @ ''}''"

subsection \<open>Subscripting\<close>

text \<open>
  \<^verbatim>\<open>value[key]\<close> with a string key: a dictionary gives the entry or raises KeyError, every
  other value raises TypeError.
\<close>

fun subscript :: "json \<Rightarrow> string \<Rightarrow> error + json" where
  "subscript (JDict kvs) k =
     (case map_of kvs k of Some v \<Rightarrow> Inr v | None \<Rightarrow> Inl (KeyError k))"
| "subscript (JList xs) k = Inl (TypeError ''list indices must be integers or slices, not str'')"
| "subscript (JStr s) k = Inl (TypeError ''string indices must be integers'')"
| "subscript v k = Inl (TypeError ''object is not subscriptable'')"

text \<open>A list comprehension whose element expression can raise: the first failure ends it.\<close>

fun map_err :: "('a \<Rightarrow> error + 'b) \<Rightarrow> 'a list \<Rightarrow> error + 'b list" where
  "map_err f [] = Inr []"
| "map_err f (x # xs) =
     (case f x of
        Inl e \<Rightarrow> Inl e
      | Inr y \<Rightarrow> (case map_err f xs of Inl e \<Rightarrow> Inl e | Inr ys \<Rightarrow> Inr (y # ys)))"

section \<open>Record Formatter: \<^verbatim>\<open>format_invoice_as_text\<close>\<close>

definition field_mapping :: "(string \<times> string) list" where
  "field_mapping =
     [(''company'', ''Company''),
      (''vendor'', ''Vendor''),
      (''invoice_number'', ''Invoice Number''),
      (''invoice_date'', ''Date''),
      (''due_date'', ''Due Date''),
      (''total'', ''Total Amount''),
      (''subtotal'', ''Subtotal''),
      (''tax'', ''Tax''),
      (''address'', ''Address''),
      (''items'', ''Line Items'')]"

text \<open>
  One pass of the first loop: the body run for one \<^verbatim>\<open>(field, label)\<close> of the mapping, on
  the lines collected so far.
\<close>

definition preferred_step ::
  "(string \<times> json) list \<Rightarrow> string list \<Rightarrow> string \<times> string \<Rightarrow> string list" where
  "preferred_step invoice_data text_parts fl =
     (case fl of (field, label) \<Rightarrow>
        (case map_of invoice_data field of
           None \<Rightarrow> text_parts
         | Some value \<Rightarrow>
             (case value of
                JList vs \<Rightarrow>
                  if vs \<noteq> [] then text_parts @ [label @ '': '' @ join '', '' (map py_str vs)]
                  else text_parts
              | JDict kvs \<Rightarrow> text_parts @ [label @ '': '' @ json_dumps value]
              | _ \<Rightarrow>
                  if truthy value then text_parts @ [label @ '': '' @ py_str value]
                  else text_parts)))"

text \<open>One pass of the second loop, over the items of the record.\<close>

definition remainder_step :: "string list \<Rightarrow> string \<times> json \<Rightarrow> string list" where
  "remainder_step text_parts kv =
     (case kv of (key, value) \<Rightarrow>
        if key \<notin> set (map fst field_mapping) \<and> truthy value
        then text_parts @ [key @ '': '' @ py_str value]
        else text_parts)"

definition text_parts_of :: "(string \<times> json) list \<Rightarrow> string list" where
  "text_parts_of invoice_data =
     foldl remainder_step (foldl (preferred_step invoice_data) [] field_mapping) invoice_data"

definition format_invoice_as_text :: "(string \<times> json) list \<Rightarrow> string" where
  "format_invoice_as_text invoice_data = join nl (text_parts_of invoice_data)"

section \<open>Chunk Builder: \<^verbatim>\<open>create_invoice_chunks\<close>\<close>

text \<open>
  The body of the loop for one invoice.  \<^verbatim>\<open>format_invoice_as_text\<close> needs a dictionary:
  on any other value it raises (TypeError or AttributeError, according to the value; the
  model raises TypeError for both).
\<close>

definition format_data :: "json \<Rightarrow> error + string" where
  "format_data d =
     (case d of
        JDict kvs \<Rightarrow> Inr (format_invoice_as_text kvs)
      | _ \<Rightarrow> Inl (TypeError ''invoice data is not a dictionary''))"

definition create_chunk :: "json \<Rightarrow> error + json" where
  "create_chunk invoice =
     (case subscript invoice ''data'' of Inl e \<Rightarrow> Inl e | Inr d \<Rightarrow>
     (case format_data d of Inl e \<Rightarrow> Inl e | Inr text \<Rightarrow>
     (case subscript invoice ''file_name'' of Inl e \<Rightarrow> Inl e | Inr file_name \<Rightarrow>
     (case subscript invoice ''id'' of Inl e \<Rightarrow> Inl e | Inr ident \<Rightarrow>
     (case subscript invoice ''metadata'' of Inl e \<Rightarrow> Inl e | Inr md \<Rightarrow>
     (case subscript md ''source_index'' of Inl e \<Rightarrow> Inl e | Inr source_index \<Rightarrow>
     (case subscript md ''has_image'' of Inl e \<Rightarrow> Inl e | Inr has_image \<Rightarrow>
        Inr (JDict
          [(''id'', ident),
           (''text'', JStr (''Invoice: '' @ py_str file_name @ nl @ nl @ text)),
           (''metadata'', JDict
              [(''file_name'', file_name),
               (''source_index'', source_index),
               (''has_image'', has_image),
               (''structured_data'', d)])]))))))))"

text \<open>
  The whole function, on the parsed contents of the data file (a JSON array).  The result
  is paired with what was written to the output file, if anything.  After saving, the
  function prints \<^verbatim>\<open>chunks[0]['text'][:500]\<close> as a sample, which raises IndexError when
  there is no chunk.
\<close>

definition create_invoice_chunks :: "json list \<Rightarrow> (error + json list) \<times> json list option" where
  "create_invoice_chunks invoices =
     (case map_err create_chunk invoices of
        Inl e \<Rightarrow> (Inl e, None)
      | Inr chunks \<Rightarrow>
          (case chunks of
             [] \<Rightarrow> (Inl (IndexError ''list index out of range''), Some chunks)
           | c # cs \<Rightarrow> (Inr chunks, Some chunks)))"

section \<open>The Formatter as the specification words it\<close>

text \<open>
  A second description of the Formatter, following the specification: a value renders as
  its comma-joined stringified elements (a list), as serialized JSON (a mapping) or
  directly (a scalar); a preferred field that is present and truthy gives one line
  \<^verbatim>\<open><Label>: <value>\<close>; a remaining field that is truthy gives one line.
\<close>

definition spec_render :: "json \<Rightarrow> string" where
  "spec_render v =
     (case v of
        JList vs \<Rightarrow> join '', '' (map py_str vs)
      | JDict kvs \<Rightarrow> json_dumps v
      | _ \<Rightarrow> py_str v)"

definition spec_preferred_line :: "(string \<times> json) list \<Rightarrow> string \<times> string \<Rightarrow> string list" where
  "spec_preferred_line rec fl =
     (case map_of rec (fst fl) of
        None \<Rightarrow> []
      | Some v \<Rightarrow> if truthy v then [snd fl @ '': '' @ spec_render v] else [])"

text \<open>A remaining field as the code renders it: the key as the label, \<^verbatim>\<open>str\<close> of the value.\<close>

definition spec_remaining_line :: "string \<times> json \<Rightarrow> string list" where
  "spec_remaining_line kv =
     (if fst kv \<notin> set (map fst field_mapping) \<and> truthy (snd kv)
      then [fst kv @ '': '' @ py_str (snd kv)] else [])"

definition spec_format :: "(string \<times> json) list \<Rightarrow> string" where
  "spec_format rec =
     join nl (concat (map (spec_preferred_line rec) field_mapping)
              @ concat (map spec_remaining_line rec))"

text \<open>
  A remaining field as the specification's sentence reads when applied to every field:
  rendered like a preferred one.
\<close>

definition stated_remaining_line :: "string \<times> json \<Rightarrow> string list" where
  "stated_remaining_line kv =
     (if fst kv \<notin> set (map fst field_mapping) \<and> truthy (snd kv)
      then [fst kv @ '': '' @ spec_render (snd kv)] else [])"

definition stated_format :: "(string \<times> json) list \<Rightarrow> string" where
  "stated_format rec =
     join nl (concat (map (spec_preferred_line rec) field_mapping)
              @ concat (map stated_remaining_line rec))"

text \<open>No preferred field of the record holds an empty mapping.\<close>

definition no_empty_mapping :: "(string \<times> json) list \<Rightarrow> bool" where
  "no_empty_mapping rec =
     list_all (\<lambda>fl. map_of rec (fst fl) \<noteq> Some (JDict [])) field_mapping"

section \<open>Flat metadata\<close>

fun is_scalar :: "json \<Rightarrow> bool" where
  "is_scalar (JList xs) = False"
| "is_scalar (JDict kvs) = False"
| "is_scalar v = True"

definition metadata_flat :: "json \<Rightarrow> bool" where
  "metadata_flat chunk =
     (case subscript chunk ''metadata'' of
        Inr (JDict md) \<Rightarrow> list_all (\<lambda>kv. is_scalar (snd kv)) md
      | _ \<Rightarrow> False)"

section \<open>Embedding Indexer: \<^verbatim>\<open>build_invoice_vectordb\<close>\<close>

subsection \<open>The vector store\<close>

text \<open>
  A collection maps each id to its embedding, text and metadata, in insertion order; the
  client maps each collection name to its collection.  The embedding type is a
  parameter.
\<close>

type_synonym 'e collection = "(string \<times> ('e \<times> json \<times> (string \<times> json) list)) list"

type_synonym 'e store = "string \<Rightarrow> 'e collection option"

text \<open>
  Modelled from the spec: the vector store is a third-party library, absent from the
  repository.  The specification gives its interface: a collection is a named set of
  (id, embedding, text, metadata) tuples; ids are strings; adding a batch is one call that
  upserts by id (reusing an id overwrites the earlier tuple); \<^verbatim>\<open>count\<close> is the number of
  tuples.  Deleting a collection that does not exist raises, as the \<^verbatim>\<open>try\<close> around
  \<^verbatim>\<open>delete_collection\<close> expects; creating one that exists raises; the four lists of a
  batch must have the same length.
\<close>

definition delete_collection :: "'e store \<Rightarrow> string \<Rightarrow> error + 'e store" where
  "delete_collection db name =
     (case db name of
        None \<Rightarrow> Inl (ValueError ''collection does not exist'')
      | Some c \<Rightarrow> Inr (db(name := None)))"

definition create_collection :: "'e store \<Rightarrow> string \<Rightarrow> error + 'e store" where
  "create_collection db name =
     (case db name of
        Some c \<Rightarrow> Inl (ValueError ''collection already exists'')
      | None \<Rightarrow> Inr (db(name \<mapsto> [])))"

fun id_string :: "json \<Rightarrow> error + string" where
  "id_string (JStr s) = Inr s"
| "id_string v = Inl (ValueError ''expected the id to be a string'')"

definition upsert ::
  "'e collection \<Rightarrow> string \<times> ('e \<times> json \<times> (string \<times> json) list) \<Rightarrow> 'e collection" where
  "upsert coll kv = AList.update (fst kv) (snd kv) coll"

definition collection_add ::
  "'e collection \<Rightarrow> json list \<Rightarrow> json list \<Rightarrow> 'e list \<Rightarrow> (string \<times> json) list list
     \<Rightarrow> error + 'e collection" where
  "collection_add coll ids docs embeddings metas =
     (if length docs \<noteq> length ids \<or> length embeddings \<noteq> length ids
         \<or> length metas \<noteq> length ids
      then Inl (ValueError ''the lists of a batch differ in length'')
      else
        (case map_err id_string ids of
           Inl e \<Rightarrow> Inl e
         | Inr keys \<Rightarrow> Inr (foldl upsert coll (zip keys (zip embeddings (zip docs metas))))))"

definition collection_count :: "'e collection \<Rightarrow> nat" where
  "collection_count coll = length coll"

subsection \<open>The build\<close>

text \<open>
  The metadata prepared for one chunk: three entries read from \<^verbatim>\<open>chunk["metadata"]\<close>.
\<close>

definition chunk_meta :: "json \<Rightarrow> error + (string \<times> json) list" where
  "chunk_meta chunk =
     (case subscript chunk ''metadata'' of Inl e \<Rightarrow> Inl e | Inr md \<Rightarrow>
     (case subscript md ''file_name'' of Inl e \<Rightarrow> Inl e | Inr file_name \<Rightarrow>
     (case subscript md ''source_index'' of Inl e \<Rightarrow> Inl e | Inr source_index \<Rightarrow>
     (case subscript md ''has_image'' of Inl e \<Rightarrow> Inl e | Inr has_image \<Rightarrow>
        Inr [(''file_name'', file_name),
             (''source_index'', source_index),
             (''has_image'', has_image)]))))"

text \<open>
  The body of the loop for one batch.  The embedding provider \<open>encode\<close> is a parameter: it
  takes the texts of a batch and returns their embeddings, or fails.
\<close>

definition process_batch ::
  "(json list \<Rightarrow> error + 'e list) \<Rightarrow> 'e collection \<Rightarrow> json list \<Rightarrow> error + 'e collection" where
  "process_batch encode coll batch =
     (case map_err (\<lambda>chunk. subscript chunk ''id'') batch of Inl e \<Rightarrow> Inl e | Inr ids \<Rightarrow>
     (case map_err (\<lambda>chunk. subscript chunk ''text'') batch of Inl e \<Rightarrow> Inl e | Inr texts \<Rightarrow>
     (case map_err chunk_meta batch of Inl e \<Rightarrow> Inl e | Inr metas \<Rightarrow>
     (case encode texts of Inl e \<Rightarrow> Inl e | Inr embeddings \<Rightarrow>
        collection_add coll ids texts embeddings metas))))"

text \<open>\<^verbatim>\<open>range(i, stop, step)\<close> for a positive step.\<close>

function range_step :: "nat \<Rightarrow> nat \<Rightarrow> nat \<Rightarrow> nat list" where
  "range_step i stop step =
     (if step = 0 \<or> stop \<le> i then [] else i # range_step (i + step) stop step)"
  by pat_completeness auto
termination
  by (relation "measure (\<lambda>(i, stop, step). stop - i)") auto

declare range_step.simps [simp del]

text \<open>
  \<^verbatim>\<open>range(0, n, step)\<close> for an integer step: a zero step raises ValueError, a negative
  step gives the empty range.
\<close>

definition py_range :: "nat \<Rightarrow> int \<Rightarrow> error + nat list" where
  "py_range n step =
     (if step = 0 then Inl (ValueError ''range() arg 3 must not be zero'')
      else if step < 0 then Inr []
      else Inr (range_step 0 n (nat step)))"

text \<open>
  The loop over the batch starts; \<^verbatim>\<open>chunks[i:i+batch_size]\<close> is \<open>take\<close> after \<open>drop\<close>.  An
  error leaves the loop with the collection as the earlier batches made it.
\<close>

fun index_batches ::
  "(json list \<Rightarrow> error + 'e list) \<Rightarrow> json list \<Rightarrow> nat \<Rightarrow> nat list \<Rightarrow> 'e collection
     \<Rightarrow> error option \<times> 'e collection" where
  "index_batches encode chunks batch_size [] coll = (None, coll)"
| "index_batches encode chunks batch_size (i # starts) coll =
     (case process_batch encode coll (take batch_size (drop i chunks)) of
        Inl e \<Rightarrow> (Some e, coll)
      | Inr coll' \<Rightarrow> index_batches encode chunks batch_size starts coll')"

text \<open>
  The build, on the parsed contents of the chunk file (a JSON array) and the store as it
  is found.  It returns the collection, or the error, and the store as it is left.  The
  embedding model and the store client are taken as already constructed, and the progress
  messages of the two build stages are not part of the model.
\<close>

definition build_invoice_vectordb ::
  "(json list \<Rightarrow> error + 'e list) \<Rightarrow> json list \<Rightarrow> 'e store \<Rightarrow> string \<Rightarrow> int
     \<Rightarrow> (error + 'e collection) \<times> 'e store" where
  "build_invoice_vectordb encode chunks db collection_name batch_size =
     (let db1 = (case delete_collection db collection_name of Inr d \<Rightarrow> d | Inl e \<Rightarrow> db) in
      (case create_collection db1 collection_name of
         Inl e \<Rightarrow> (Inl e, db1)
       | Inr db2 \<Rightarrow>
           (case py_range (length chunks) batch_size of
              Inl e \<Rightarrow> (Inl e, db2)
            | Inr starts \<Rightarrow>
                (case index_batches encode chunks (nat batch_size) starts [] of
                   (Some e, coll) \<Rightarrow> (Inl e, db2(collection_name \<mapsto> coll))
                 | (None, coll) \<Rightarrow> (Inr coll, db2(collection_name \<mapsto> coll))))))"

text \<open>The provider embeds each text on its own, whatever batch the text arrives in.\<close>

definition embeds_each :: "(json list \<Rightarrow> error + 'e list) \<Rightarrow> (json \<Rightarrow> error + 'e) \<Rightarrow> bool" where
  "embeds_each encode emb = (\<forall>texts. encode texts = map_err emb texts)"

section \<open>Query pipeline: \<^verbatim>\<open>InvoiceRAG\<close>\<close>

text \<open>
  What a run does to the outside is a trace of events: lines printed, prompts shown by
  \<^verbatim>\<open>input\<close>, and calls to the three providers (the embedding model, the collection's
  query, the generation model).
\<close>

datatype event =
    Printed string
  | Prompted string
  | Encoded string
  | Queried int
  | Generated string

text \<open>
  The result of \<^verbatim>\<open>collection.query\<close> for the one query embedding passed:
  \<^verbatim>\<open>results['documents'][0]\<close> and \<^verbatim>\<open>results['metadatas'][0]\<close>.
\<close>

record results =
  documents :: "string list"
  metadatas :: "(string \<times> json) list list"

text \<open>
  The object's providers are parameters.  Each answers a request or fails, and its answer
  may depend on everything that happened before (the trace), so a provider need not be
  deterministic.
\<close>

record 'e invoice_rag =
  embedder_encode :: "event list \<Rightarrow> string \<Rightarrow> error + 'e"
  collection_query :: "event list \<Rightarrow> 'e \<Rightarrow> int \<Rightarrow> error + results"
  llm_generate_content :: "event list \<Rightarrow> string \<Rightarrow> error + string"

definition retrieve ::
  "'e invoice_rag \<Rightarrow> string \<Rightarrow> int \<Rightarrow> event list \<Rightarrow> (error + results) \<times> event list" where
  "retrieve self query n_results tr =
     (case embedder_encode self tr query of
        Inl e \<Rightarrow> (Inl e, tr @ [Encoded query])
      | Inr query_embedding \<Rightarrow>
          (collection_query self (tr @ [Encoded query]) query_embedding n_results,
           tr @ [Encoded query, Queried n_results]))"

text \<open>
  The loop of \<^verbatim>\<open>format_retrieved_context\<close> over \<^verbatim>\<open>enumerate(zip(documents, metadatas), 1)\<close>:
  \<open>i\<close> is the running ordinal and \<open>context_parts\<close> the blocks collected so far.
\<close>

fun context_loop ::
  "nat \<Rightarrow> (string \<times> (string \<times> json) list) list \<Rightarrow> string list \<Rightarrow> error + string list" where
  "context_loop i [] context_parts = Inr context_parts"
| "context_loop i ((doc, meta) # rest) context_parts =
     (case map_of meta ''file_name'' of
        None \<Rightarrow> Inl (KeyError ''file_name'')
      | Some file_name \<Rightarrow>
          context_loop (Suc i) rest
            (context_parts
               @ [''--- Invoice '' @ str_nat i @ '' ('' @ py_str file_name @ '') ---'' @ nl @ doc]))"

definition format_retrieved_context :: "results \<Rightarrow> error + string" where
  "format_retrieved_context res =
     (case context_loop 1 (zip (documents res) (metadatas res)) [] of
        Inl e \<Rightarrow> Inl e
      | Inr context_parts \<Rightarrow> Inr (join (nl @ nl) context_parts))"

definition build_prompt :: "string \<Rightarrow> string \<Rightarrow> string" where
  "build_prompt context query =
     ''You are an invoice analysis assistant. Answer questions based on the invoice data provided.''
     @ nl @ nl @ ''Invoice Data:'' @ nl @ context
     @ nl @ nl @ ''Question: '' @ query
     @ nl @ nl
     @ ''Provide a clear, concise answer based on the invoice information above. If the answer requires specific amounts or dates, include them in your response.''
     @ nl @ nl @ ''Answer:''"

definition generate_answer ::
  "'e invoice_rag \<Rightarrow> string \<Rightarrow> int \<Rightarrow> event list \<Rightarrow> (error + string) \<times> event list" where
  "generate_answer self query n_results tr =
     (case retrieve self query n_results (tr @ [Printed (nl @ ''Query: '' @ query)]) of
        (Inl e, tr1) \<Rightarrow> (Inl e, tr1)
      | (Inr res, tr1) \<Rightarrow>
          if documents res = [] then (Inr ''No relevant invoices found in the database.'', tr1)
          else
            (let tr2 = tr1 @ [Printed (''Retrieved '' @ str_nat (length (documents res))
                                        @ '' relevant invoices'')] in
             (case format_retrieved_context res of
                Inl e \<Rightarrow> (Inl e, tr2)
              | Inr context \<Rightarrow>
                  (let prompt = build_prompt context query;
                       tr3 = tr2 @ [Printed ''Generating answer with Gemini...'']
                   in (llm_generate_content self tr3 prompt, tr3 @ [Generated prompt])))))"

text \<open>The prompts sent to the generation provider, in order.\<close>

fun generation_calls :: "event list \<Rightarrow> string list" where
  "generation_calls [] = []"
| "generation_calls (Generated p # tr) = p # generation_calls tr"
| "generation_calls (ev # tr) = generation_calls tr"

subsection \<open>The interactive session\<close>

text \<open>\<^verbatim>\<open>str.strip()\<close> and \<^verbatim>\<open>str.lower()\<close> on code points below 256.\<close>

definition is_space :: "char \<Rightarrow> bool" where
  "is_space c =
     (let n = (of_char c :: nat)
      in (9 \<le> n \<and> n \<le> 13) \<or> (28 \<le> n \<and> n \<le> 32) \<or> n = 133 \<or> n = 160)"

definition strip :: "string \<Rightarrow> string" where
  "strip s = rev (dropWhile is_space (rev (dropWhile is_space s)))"

definition lower_char :: "char \<Rightarrow> char" where
  "lower_char c =
     (let n = (of_char c :: nat)
      in if (65 \<le> n \<and> n \<le> 90) \<or> (192 \<le> n \<and> n \<le> 222 \<and> n \<noteq> 215)
         then char_of (n + 32) else c)"

definition lower :: "string \<Rightarrow> string" where
  "lower s = map lower_char s"

definition exit_words :: "string list" where
  "exit_words = [''quit'', ''exit'', ''q'']"

definition you_prompt :: string where
  "you_prompt = nl @ ''You: ''"

text \<open>
  The \<^verbatim>\<open>while True\<close> loop of \<^verbatim>\<open>chat\<close>.  Standard input is the list of the lines still to be
  read; \<^verbatim>\<open>input\<close> raises EOFError when none is left, outside the \<^verbatim>\<open>try\<close>, so the error
  leaves the loop.  Every pass reads one line, so the loop is a recursion on that list.
  \<^verbatim>\<open>except Exception\<close> catches every error of the model.
\<close>

fun chat_loop ::
  "'e invoice_rag \<Rightarrow> string list \<Rightarrow> event list \<Rightarrow> (error + unit) \<times> event list" where
  "chat_loop self [] tr = (Inl EOFError, tr @ [Prompted you_prompt])"
| "chat_loop self (line # rest) tr =
     (let query = strip line; tr1 = tr @ [Prompted you_prompt] in
      if lower query \<in> set exit_words then (Inr (), tr1 @ [Printed ''Goodbye!''])
      else if query = [] then chat_loop self rest tr1
      else
        (case generate_answer self query 5 tr1 of
           (Inr answer, tr2) \<Rightarrow>
             chat_loop self rest (tr2 @ [Printed (nl @ ''Assistant: '' @ answer)])
         | (Inl e, tr2) \<Rightarrow>
             chat_loop self rest (tr2 @ [Printed (''Error: '' @ str_error e)])))"

definition banner :: "event list" where
  "banner =
     [Printed (nl @ replicate 60 (CHR ''='')),
      Printed ''Invoice RAG System (type 'quit' to exit)'',
      Printed (replicate 60 (CHR ''='')),
      Printed (nl @ ''Example queries:''),
      Printed ''  - What is the total amount for invoice X?'',
      Printed ''  - Which invoices are from company Y?'',
      Printed ''  - Show me invoices from January 2023'',
      Printed ''  - What are the highest value invoices?'',
      Printed (replicate 60 (CHR ''=''))]"

definition chat :: "'e invoice_rag \<Rightarrow> string list \<Rightarrow> event list \<Rightarrow> (error + unit) \<times> event list" where
  "chat self inputs tr = chat_loop self inputs (tr @ banner)"

text \<open>The block the specification gives for one retrieved document.\<close>

definition spec_block :: "nat \<Rightarrow> json \<Rightarrow> string \<Rightarrow> string" where
  "spec_block ordinal file_name doc =
     ''--- Invoice '' @ str_nat ordinal @ '' ('' @ py_str file_name @ '') ---'' @ nl @ doc"

section \<open>Well-formed inputs\<close>

text \<open>
  The fields the two build stages read.  An invoice has a dictionary under \<^verbatim>\<open>data\<close>, a
  \<^verbatim>\<open>file_name\<close>, an \<^verbatim>\<open>id\<close> and a \<^verbatim>\<open>metadata\<close> dictionary with \<^verbatim>\<open>source_index\<close> and
  \<^verbatim>\<open>has_image\<close>; a chunk has a string \<^verbatim>\<open>id\<close>, a \<^verbatim>\<open>text\<close> and a \<^verbatim>\<open>metadata\<close> dictionary with
  the three entries the Indexer stores.
\<close>

definition has_key :: "json \<Rightarrow> string \<Rightarrow> bool" where
  "has_key v k = (case subscript v k of Inr x \<Rightarrow> True | Inl e \<Rightarrow> False)"

definition well_formed_invoice :: "json \<Rightarrow> bool" where
  "well_formed_invoice invoice =
     ((case subscript invoice ''data'' of Inr (JDict kvs) \<Rightarrow> True | _ \<Rightarrow> False)
      \<and> has_key invoice ''file_name'' \<and> has_key invoice ''id''
      \<and> (case subscript invoice ''metadata'' of
            Inr md \<Rightarrow> has_key md ''source_index'' \<and> has_key md ''has_image''
          | Inl e \<Rightarrow> False))"

definition well_formed_chunk :: "json \<Rightarrow> bool" where
  "well_formed_chunk chunk =
     ((case subscript chunk ''id'' of Inr (JStr k) \<Rightarrow> True | _ \<Rightarrow> False)
      \<and> has_key chunk ''text''
      \<and> (case subscript chunk ''metadata'' of
            Inr md \<Rightarrow> has_key md ''file_name'' \<and> has_key md ''source_index''
                      \<and> has_key md ''has_image''
          | Inl e \<Rightarrow> False))"

section \<open>Example data\<close>

text \<open>Concrete inputs on which the theorems below are instantiated.\<close>

definition example_invoice :: json where
  "example_invoice =
     JDict
       [(''id'', JStr ''invoice_0''),
        (''file_name'', JStr ''a.png''),
        (''data'', JDict [(''vendor'', JStr ''Acme'')]),
        (''metadata'', JDict [(''source_index'', JInt 0), (''has_image'', JBool True)])]"

definition example_chunk :: "string \<Rightarrow> json" where
  "example_chunk ident =
     JDict
       [(''id'', JStr ident),
        (''text'', JStr (''Invoice: a.png'' @ nl @ nl @ ''Vendor: Acme'')),
        (''metadata'', JDict
           [(''file_name'', JStr ''a.png''),
            (''source_index'', JInt 0),
            (''has_image'', JBool True),
            (''structured_data'', JDict [(''vendor'', JStr ''Acme'')])])]"

definition example_meta :: "(string \<times> json) list" where
  "example_meta =
     [(''file_name'', JStr ''a.png''), (''source_index'', JInt 0), (''has_image'', JBool True)]"

definition example_chunks :: "json list" where
  "example_chunks = [example_chunk ''invoice_0'', example_chunk ''invoice_1'', example_chunk ''invoice_2'']"

definition example_coll :: "nat collection" where
  "example_coll =
     [(''invoice_0'', (28, JStr (''Invoice: a.png'' @ nl @ nl @ ''Vendor: Acme''), example_meta)),
      (''invoice_1'', (28, JStr (''Invoice: a.png'' @ nl @ nl @ ''Vendor: Acme''), example_meta)),
      (''invoice_2'', (28, JStr (''Invoice: a.png'' @ nl @ nl @ ''Vendor: Acme''), example_meta))]"

definition example_emb :: "json \<Rightarrow> error + nat" where
  "example_emb text = Inr (length (py_str text))"

definition example_encode :: "json list \<Rightarrow> error + nat list" where
  "example_encode texts = map_err example_emb texts"

definition example_name :: string where
  "example_name = ''invoices_collection''"

definition example_store :: "nat store" where
  "example_store = Map.empty(example_name \<mapsto> [(''stale'', (0, JStr ''old text'', []))])"

text \<open>A chunk without \<^verbatim>\<open>text\<close>, and a provider whose embeddings depend on the batch.\<close>

definition example_bad_chunk :: json where
  "example_bad_chunk = JDict [(''id'', JStr ''invoice_1'')]"

definition example_batch_encode :: "json list \<Rightarrow> error + nat list" where
  "example_batch_encode texts = Inr (map (\<lambda>t. length texts) texts)"

definition example_rag_empty :: "nat invoice_rag" where
  "example_rag_empty =
     \<lparr>embedder_encode = (\<lambda>tr query. Inr (length query)),
      collection_query = (\<lambda>tr v n. Inr \<lparr>documents = [], metadatas = []\<rparr>),
      llm_generate_content = (\<lambda>tr prompt. Inr ''unused'')\<rparr>"

definition example_rag_down :: "nat invoice_rag" where
  "example_rag_down =
     \<lparr>embedder_encode = (\<lambda>tr query. Inl (ProviderError ''connection refused'')),
      collection_query = (\<lambda>tr v n. Inr \<lparr>documents = [], metadatas = []\<rparr>),
      llm_generate_content = (\<lambda>tr prompt. Inr ''unused'')\<rparr>"

definition example_results :: results where
  "example_results =
     \<lparr>documents = [''d1'', ''d2''],
      metadatas = [[(''file_name'', JStr ''a.png'')], [(''file_name'', JStr ''b.png'')]]\<rparr>"

section \<open>Properties of the Record Formatter\<close>

lemma foldl_append_lines:
  "(\<And>acc x. x \<in> set xs \<Longrightarrow> f acc x = acc @ g x) \<Longrightarrow> foldl f acc xs = acc @ concat (map g xs)"
  by (induction xs arbitrary: acc) auto

lemma preferred_step_spec:
  "map_of rec (fst fl) \<noteq> Some (JDict []) \<Longrightarrow>
   preferred_step rec acc fl = acc @ spec_preferred_line rec fl"
  by (cases fl) (auto simp: preferred_step_def spec_preferred_line_def spec_render_def
      split: option.splits json.splits)

lemma remainder_step_spec: "remainder_step acc kv = acc @ spec_remaining_line kv"
  by (cases kv) (auto simp: remainder_step_def spec_remaining_line_def)

lemma text_parts_spec:
  assumes "no_empty_mapping rec"
  shows "text_parts_of rec =
    concat (map (spec_preferred_line rec) field_mapping) @ concat (map spec_remaining_line rec)"
proof -
  have "foldl (preferred_step rec) [] field_mapping
      = [] @ concat (map (spec_preferred_line rec) field_mapping)"
    using assms
    by (intro foldl_append_lines preferred_step_spec) (auto simp: no_empty_mapping_def list_all_iff)
  moreover have "foldl remainder_step acc rec = acc @ concat (map spec_remaining_line rec)" for acc
    by (intro foldl_append_lines remainder_step_spec)
  ultimately show ?thesis by (simp add: text_parts_of_def)
qed

lemma format_example:
  "format_invoice_as_text [(''total'', JInt 100), (''vendor'', JStr ''Acme''), (''notes'', JStr '''')]
     = ''Vendor: Acme'' @ nl @ ''Total Amount: 100''"
  by code_simp

lemma format_empty_record: "format_invoice_as_text [] = []"
  by code_simp

text \<open>
  C4.  The specification says that the Formatter emits no line for a field whose value is
  absent, empty or falsy.  The list branch, the scalar branch and the second loop test the
  value; the mapping branch of the first loop does not: a preferred field holding the empty
  mapping, which is falsy, gives the line \<^verbatim>\<open>Company: {}\<close>.
\<close>

theorem format_empty_mapping_line:
  "\<not> truthy (JDict []) \<and> format_invoice_as_text [(''company'', JDict [])] = ''Company: {}''"
  by code_simp

text \<open>
  C5, amended.  When no preferred field holds an empty mapping, the Formatter's output is
  the newline-joined list of: one line \<^verbatim>\<open><Label>: <value>\<close> for each preferred field that is
  present and truthy, in the order of the mapping, a list rendered as its comma-joined
  stringified elements, a mapping as serialized JSON, a scalar directly; then one line
  \<^verbatim>\<open><key>: <str(value)>\<close> for each remaining truthy field, in the record's order, where a
  list or a mapping appears as Python prints it.  The empty record gives the empty string,
  and the specification's example gives the two lines it states.
\<close>

theorem format_follows_spec:
  assumes "no_empty_mapping rec"
  shows "format_invoice_as_text rec = spec_format rec
    \<and> format_invoice_as_text [] = []
    \<and> format_invoice_as_text
         [(''total'', JInt 100), (''vendor'', JStr ''Acme''), (''notes'', JStr '''')]
       = ''Vendor: Acme'' @ nl @ ''Total Amount: 100''"
  using assms
  by (simp add: format_invoice_as_text_def spec_format_def text_parts_spec
      format_example [unfolded format_invoice_as_text_def]
      format_empty_record [unfolded format_invoice_as_text_def])

text \<open>An instance: a preferred list, a remaining list and a falsy preferred field.\<close>

theorem format_follows_spec_witness:
  "no_empty_mapping [(''items'', JList [JInt 1, JStr ''b'']), (''tags'', JList [JStr ''a'']), (''tax'', JInt 0)]
   \<and> format_invoice_as_text [(''items'', JList [JInt 1, JStr ''b'']), (''tags'', JList [JStr ''a'']), (''tax'', JInt 0)]
     = ''Line Items: 1, b'' @ nl @ ''tags: ['' @ [CHR 0x27] @ ''a'' @ [CHR 0x27] @ '']''"
proof -
  have h: "no_empty_mapping [(''items'', JList [JInt 1, JStr ''b'']), (''tags'', JList [JStr ''a'']), (''tax'', JInt 0)]"
    by code_simp
  have v: "spec_format [(''items'', JList [JInt 1, JStr ''b'']), (''tags'', JList [JStr ''a'']), (''tax'', JInt 0)]
     = ''Line Items: 1, b'' @ nl @ ''tags: ['' @ [CHR 0x27] @ ''a'' @ [CHR 0x27] @ '']''"
    by code_simp
  show ?thesis using h v format_follows_spec [OF h] by simp
qed

text \<open>
  C5 as stated fails on a remaining field holding a list: the code prints the list as
  Python does, with brackets and quoted elements, not as comma-joined elements.
\<close>

theorem format_remaining_list_counterexample:
  "format_invoice_as_text [(''tags'', JList [JStr ''a'', JStr ''b''])]
     = ''tags: ['' @ [CHR 0x27] @ ''a'' @ [CHR 0x27] @ '', '' @ [CHR 0x27] @ ''b'' @ [CHR 0x27] @ '']''
   \<and> stated_format [(''tags'', JList [JStr ''a'', JStr ''b''])] = ''tags: a, b''
   \<and> format_invoice_as_text [(''tags'', JList [JStr ''a'', JStr ''b''])]
     \<noteq> stated_format [(''tags'', JList [JStr ''a'', JStr ''b''])]"
  by code_simp

section \<open>Properties of the Chunk Builder\<close>

lemma map_err_Inr:
  "map_err f xs = Inr ys \<Longrightarrow> length ys = length xs \<and> (\<forall>i<length xs. f (xs ! i) = Inr (ys ! i))"
proof (induction xs arbitrary: ys)
  case Nil
  then show ?case by simp
next
  case (Cons x xs)
  then obtain y ys' where y: "f x = Inr y" and ys': "map_err f xs = Inr ys'" and eq: "ys = y # ys'"
    by (auto split: sum.splits)
  from Cons.IH [OF ys'] y eq show ?case
    by (auto simp: nth_Cons split: nat.splits)
qed

lemma create_chunk_Inr:
  assumes "create_chunk invoice = Inr c"
  shows "\<exists>kvs file_name ident md source_index has_image.
      subscript invoice ''data'' = Inr (JDict kvs)
    \<and> subscript invoice ''file_name'' = Inr file_name
    \<and> subscript invoice ''id'' = Inr ident
    \<and> subscript invoice ''metadata'' = Inr md
    \<and> subscript md ''source_index'' = Inr source_index
    \<and> subscript md ''has_image'' = Inr has_image
    \<and> c = JDict
        [(''id'', ident),
         (''text'', JStr (''Invoice: '' @ py_str file_name @ nl @ nl @ format_invoice_as_text kvs)),
         (''metadata'', JDict
            [(''file_name'', file_name),
             (''source_index'', source_index),
             (''has_image'', has_image),
             (''structured_data'', JDict kvs)])]"
  using assms
  by (auto simp: create_chunk_def format_data_def split: sum.splits json.splits)

lemma create_invoice_chunks_Inr:
  assumes "fst (create_invoice_chunks invoices) = Inr chunks"
  shows "map_err create_chunk invoices = Inr chunks \<and> snd (create_invoice_chunks invoices) = Some chunks"
  using assms by (auto simp: create_invoice_chunks_def split: sum.splits list.splits)

text \<open>
  C8.  The specification says that every list of records gives one chunk per record.  On
  the empty list the function writes the empty chunk list to the output file and then
  raises IndexError at the sample print \<^verbatim>\<open>chunks[0]\<close>, instead of returning the empty list.
\<close>

theorem create_invoice_chunks_empty_raises:
  "create_invoice_chunks [] = (Inl (IndexError ''list index out of range''), Some [])"
  by (simp add: create_invoice_chunks_def)

text \<open>
  Whenever the function returns, it returns one chunk per record, in order: the chunk takes
  its id from the record at its position, and its text is the header line with the file
  name, a blank line and the Formatter's output for the record's data.  The same list is
  what was saved.
\<close>

lemma create_invoice_chunks_one_per_record:
  assumes "fst (create_invoice_chunks invoices) = Inr chunks"
  shows "length chunks = length invoices
    \<and> snd (create_invoice_chunks invoices) = Some chunks
    \<and> (\<forall>i<length invoices. \<exists>kvs file_name.
          subscript (invoices ! i) ''data'' = Inr (JDict kvs)
        \<and> subscript (invoices ! i) ''file_name'' = Inr file_name
        \<and> subscript (chunks ! i) ''id'' = subscript (invoices ! i) ''id''
        \<and> subscript (chunks ! i) ''text''
            = Inr (JStr (''Invoice: '' @ py_str file_name @ nl @ nl @ format_invoice_as_text kvs)))"
proof -
  from create_invoice_chunks_Inr [OF assms]
  have m: "map_err create_chunk invoices = Inr chunks"
    and s: "snd (create_invoice_chunks invoices) = Some chunks" by simp_all
  from map_err_Inr [OF m]
  have len: "length chunks = length invoices"
    and each: "\<And>i. i < length invoices \<Longrightarrow> create_chunk (invoices ! i) = Inr (chunks ! i)"
    by simp_all
  have "\<exists>kvs file_name.
          subscript (invoices ! i) ''data'' = Inr (JDict kvs)
        \<and> subscript (invoices ! i) ''file_name'' = Inr file_name
        \<and> subscript (chunks ! i) ''id'' = subscript (invoices ! i) ''id''
        \<and> subscript (chunks ! i) ''text''
            = Inr (JStr (''Invoice: '' @ py_str file_name @ nl @ nl @ format_invoice_as_text kvs))"
    if "i < length invoices" for i
    using create_chunk_Inr [OF each [OF that]] by auto
  with len s show ?thesis by blast
qed

text \<open>
  On a list of well-formed invoices that is not empty the function returns, and saves what
  it returns.
\<close>

lemma map_err_total:
  "(\<And>x. x \<in> set xs \<Longrightarrow> \<exists>y. f x = Inr y) \<Longrightarrow> \<exists>ys. map_err f xs = Inr ys"
  by (induction xs) (fastforce split: sum.splits)+

lemma create_chunk_total:
  "well_formed_invoice invoice \<Longrightarrow> \<exists>c. create_chunk invoice = Inr c"
  by (auto simp: well_formed_invoice_def has_key_def create_chunk_def format_data_def
      split: sum.splits json.splits)

lemma create_invoice_chunks_returns:
  assumes "invoices \<noteq> []" and "list_all well_formed_invoice invoices"
  shows "\<exists>chunks. create_invoice_chunks invoices = (Inr chunks, Some chunks)"
proof -
  from assms(2) have "\<exists>chunks. map_err create_chunk invoices = Inr chunks"
    by (intro map_err_total create_chunk_total) (simp add: list_all_iff)
  then obtain chunks where m: "map_err create_chunk invoices = Inr chunks" by blast
  from map_err_Inr [OF m] assms(1) have "chunks \<noteq> []" by auto
  with m show ?thesis by (auto simp: create_invoice_chunks_def split: list.splits)
qed

lemma chunks_carry_structured_data:
  assumes "fst (create_invoice_chunks invoices) = Inr chunks" and "c \<in> set chunks"
  shows "\<exists>md d. subscript c ''metadata'' = Inr md \<and> subscript md ''structured_data'' = Inr d"
proof -
  from create_invoice_chunks_Inr [OF assms(1)]
  have m: "map_err create_chunk invoices = Inr chunks" by simp
  from assms(2) obtain i where i: "i < length chunks" "c = chunks ! i"
    by (auto simp: in_set_conv_nth)
  from map_err_Inr [OF m] i have "create_chunk (invoices ! i) = Inr c" by simp
  from create_chunk_Inr [OF this] show ?thesis by auto
qed

text \<open>
  C3, amended.  Every chunk the Chunk Builder returns has a metadata mapping of exactly four
  entries: \<^verbatim>\<open>file_name\<close>, \<^verbatim>\<open>source_index\<close> and \<^verbatim>\<open>has_image\<close>, copied from the record, and
  \<^verbatim>\<open>structured_data\<close>, which holds the record's data mapping itself, nested; so the metadata
  of a chunk is never flat.
\<close>

theorem chunk_metadata_shape:
  assumes "fst (create_invoice_chunks invoices) = Inr chunks" and "i < length chunks"
  shows "\<exists>file_name md source_index has_image kvs.
      subscript (invoices ! i) ''file_name'' = Inr file_name
    \<and> subscript (invoices ! i) ''metadata'' = Inr md
    \<and> subscript md ''source_index'' = Inr source_index
    \<and> subscript md ''has_image'' = Inr has_image
    \<and> subscript (invoices ! i) ''data'' = Inr (JDict kvs)
    \<and> subscript (chunks ! i) ''metadata''
        = Inr (JDict
            [(''file_name'', file_name),
             (''source_index'', source_index),
             (''has_image'', has_image),
             (''structured_data'', JDict kvs)])
    \<and> \<not> metadata_flat (chunks ! i)"
proof -
  from create_invoice_chunks_Inr [OF assms(1)]
  have m: "map_err create_chunk invoices = Inr chunks" by simp
  from map_err_Inr [OF m] assms(2)
  have "create_chunk (invoices ! i) = Inr (chunks ! i)" by simp
  from create_chunk_Inr [OF this] show ?thesis
    by (auto simp: metadata_flat_def)
qed

text \<open>An instance: the chunk built from one invoice.\<close>

theorem chunk_metadata_shape_witness:
  "fst (create_invoice_chunks [example_invoice]) = Inr [example_chunk ''invoice_0'']
   \<and> (0::nat) < length [example_chunk ''invoice_0'']
   \<and> \<not> metadata_flat ([example_chunk ''invoice_0''] ! 0)"
proof -
  have h1: "fst (create_invoice_chunks [example_invoice]) = Inr [example_chunk ''invoice_0'']"
    by code_simp
  have h2: "(0::nat) < length [example_chunk ''invoice_0'']" by simp
  from chunk_metadata_shape [OF h1 h2] have "\<not> metadata_flat ([example_chunk ''invoice_0''] ! 0)"
    by blast
  with h1 h2 show ?thesis by blast
qed

text \<open>
  C3 as stated fails on any record: the chunk for one well-formed invoice carries the
  nested mapping under \<^verbatim>\<open>structured_data\<close>.
\<close>

theorem chunk_metadata_nested_counterexample:
  "fst (create_invoice_chunks
     [JDict
       [(''id'', JStr ''invoice_0''),
        (''file_name'', JStr ''a.png''),
        (''data'', JDict [(''vendor'', JStr ''Acme'')]),
        (''metadata'', JDict [(''source_index'', JInt 0), (''has_image'', JBool True)])]])
   = Inr
     [JDict
       [(''id'', JStr ''invoice_0''),
        (''text'', JStr (''Invoice: a.png'' @ nl @ nl @ ''Vendor: Acme'')),
        (''metadata'', JDict
           [(''file_name'', JStr ''a.png''),
            (''source_index'', JInt 0),
            (''has_image'', JBool True),
            (''structured_data'', JDict [(''vendor'', JStr ''Acme'')])])]]
  \<and> \<not> metadata_flat
     (JDict
       [(''id'', JStr ''invoice_0''),
        (''text'', JStr (''Invoice: a.png'' @ nl @ nl @ ''Vendor: Acme'')),
        (''metadata'', JDict
           [(''file_name'', JStr ''a.png''),
            (''source_index'', JInt 0),
            (''has_image'', JBool True),
            (''structured_data'', JDict [(''vendor'', JStr ''Acme'')])])])"
  by code_simp

section \<open>Properties of the query pipeline\<close>

lemma generation_calls_append:
  "generation_calls (xs @ ys) = generation_calls xs @ generation_calls ys"
  by (induction xs rule: generation_calls.induct) simp_all

lemma retrieve_trace:
  "retrieve self query n tr = (Inr res, tr') \<Longrightarrow> tr' = tr @ [Encoded query, Queried n]"
  by (auto simp: retrieve_def split: sum.splits)

text \<open>
  C1.  When retrieval returns no document, \<^verbatim>\<open>generate_answer\<close> returns exactly the literal
  fallback string, and the only events it adds to the trace are the printed query and the
  two calls of the retrieval: the generation provider is not called.
\<close>

theorem generate_answer_empty_retrieval:
  assumes "retrieve self query n (tr @ [Printed (nl @ ''Query: '' @ query)]) = (Inr res, tr')"
    and "documents res = []"
  shows "generate_answer self query n tr = (Inr ''No relevant invoices found in the database.'', tr')
    \<and> tr' = tr @ [Printed (nl @ ''Query: '' @ query), Encoded query, Queried n]
    \<and> generation_calls tr' = generation_calls tr"
proof -
  from retrieve_trace [OF assms(1)]
  have tr': "tr' = tr @ [Printed (nl @ ''Query: '' @ query), Encoded query, Queried n]" by simp
  have "generate_answer self query n tr = (Inr ''No relevant invoices found in the database.'', tr')"
    using assms by (simp add: generate_answer_def)
  moreover have "generation_calls tr' = generation_calls tr"
    by (simp add: tr' generation_calls_append)
  ultimately show ?thesis using tr' by simp
qed

text \<open>An instance: a collection that matches nothing.\<close>

theorem generate_answer_empty_retrieval_witness:
  "retrieve example_rag_empty ''total?'' 5 ([] @ [Printed (nl @ ''Query: '' @ ''total?'')])
     = (Inr \<lparr>documents = [], metadatas = []\<rparr>,
        [Printed (nl @ ''Query: '' @ ''total?''), Encoded ''total?'', Queried 5])
   \<and> documents \<lparr>documents = [], metadatas = []\<rparr> = []
   \<and> generate_answer example_rag_empty ''total?'' 5 []
     = (Inr ''No relevant invoices found in the database.'',
        [Printed (nl @ ''Query: '' @ ''total?''), Encoded ''total?'', Queried 5])"
proof -
  have h1: "retrieve example_rag_empty ''total?'' 5 ([] @ [Printed (nl @ ''Query: '' @ ''total?'')])
     = (Inr \<lparr>documents = [], metadatas = []\<rparr>,
        [Printed (nl @ ''Query: '' @ ''total?''), Encoded ''total?'', Queried 5])"
    by (simp add: retrieve_def example_rag_empty_def)
  have h2: "documents \<lparr>documents = [], metadatas = []\<rparr> = []" by simp
  from generate_answer_empty_retrieval [OF h1 h2] h1 h2 show ?thesis by simp
qed

lemma context_loop_spec:
  assumes "length fns = length pairs"
    and "\<forall>j<length pairs. map_of (snd (pairs ! j)) ''file_name'' = Some (fns ! j)"
  shows "context_loop i pairs acc
    = Inr (acc @ map (\<lambda>j. spec_block (i + j) (fns ! j) (fst (pairs ! j))) [0..<length pairs])"
  using assms
proof (induction pairs arbitrary: i acc fns)
  case Nil
  then show ?case by simp
next
  case (Cons p pairs)
  obtain doc meta where p: "p = (doc, meta)" by (cases p)
  from Cons.prems(1) obtain fn fns' where fns: "fns = fn # fns'" and len: "length fns' = length pairs"
    by (cases fns) auto
  from Cons.prems(2) have hd: "map_of meta ''file_name'' = Some fn"
    using p fns by auto
  from Cons.prems(2) have tl: "\<forall>j<length pairs. map_of (snd (pairs ! j)) ''file_name'' = Some (fns' ! j)"
    using fns by auto
  show ?case
    using Cons.IH [OF len tl, of "Suc i"] hd
    by (simp add: p fns map_upt_Suc spec_block_def del: upt_Suc)
qed

text \<open>
  C9.  For a retrieval result whose metadata carry a file name, the Context Assembler
  returns the blocks of the (document, metadata) pairs in result order, joined by a blank
  line; the block at position \<open>j\<close> (counted from 0) is the header
  \<^verbatim>\<open>--- Invoice <j+1> (<file_name>) ---\<close>, a newline and the raw document.  The pairs are
  those of \<^verbatim>\<open>zip\<close>, so their number is the smaller of the two lengths.  A result without
  documents gives the empty string.
\<close>

theorem format_retrieved_context_blocks:
  assumes "n = min (length (documents res)) (length (metadatas res))"
    and "length fns = n"
    and "\<forall>j<n. map_of (metadatas res ! j) ''file_name'' = Some (fns ! j)"
  shows "format_retrieved_context res
      = Inr (join (nl @ nl) (map (\<lambda>j. spec_block (Suc j) (fns ! j) (documents res ! j)) [0..<n]))
    \<and> (documents res = [] \<longrightarrow> format_retrieved_context res = Inr [])"
proof -
  let ?pairs = "zip (documents res) (metadatas res)"
  have len: "length fns = length ?pairs" using assms by simp
  have each: "\<forall>j<length ?pairs. map_of (snd (?pairs ! j)) ''file_name'' = Some (fns ! j)"
    using assms by simp
  have "context_loop 1 ?pairs []
      = Inr (map (\<lambda>j. spec_block (Suc j) (fns ! j) (documents res ! j)) [0..<n])"
    using context_loop_spec [OF len each, of 1 "[]"] assms(1) by simp
  then have main: "format_retrieved_context res
      = Inr (join (nl @ nl) (map (\<lambda>j. spec_block (Suc j) (fns ! j) (documents res ! j)) [0..<n]))"
    by (simp add: format_retrieved_context_def)
  moreover have "format_retrieved_context res = Inr []" if "documents res = []"
    using that by (simp add: format_retrieved_context_def)
  ultimately show ?thesis by simp
qed

text \<open>An instance: two retrieved documents.\<close>

theorem format_retrieved_context_blocks_witness:
  "(2::nat) = min (length (documents example_results)) (length (metadatas example_results))
   \<and> length [JStr ''a.png'', JStr ''b.png''] = 2
   \<and> map_of (metadatas example_results ! 0) ''file_name'' = Some (JStr ''a.png'')
   \<and> map_of (metadatas example_results ! 1) ''file_name'' = Some (JStr ''b.png'')
   \<and> format_retrieved_context example_results
       = Inr (''--- Invoice 1 (a.png) ---'' @ nl @ ''d1'' @ nl @ nl
              @ ''--- Invoice 2 (b.png) ---'' @ nl @ ''d2'')"
proof -
  have h1: "(2::nat) = min (length (documents example_results)) (length (metadatas example_results))"
    by (simp add: example_results_def)
  have h2: "length [JStr ''a.png'', JStr ''b.png''] = 2" by simp
  have h3: "\<forall>j<2. map_of (metadatas example_results ! j) ''file_name''
               = Some ([JStr ''a.png'', JStr ''b.png''] ! j)"
    by (auto simp: example_results_def less_2_cases_iff)
  have v: "join (nl @ nl)
        (map (\<lambda>j. spec_block (Suc j) ([JStr ''a.png'', JStr ''b.png''] ! j)
                     (documents example_results ! j)) [0..<2])
      = ''--- Invoice 1 (a.png) ---'' @ nl @ ''d1'' @ nl @ nl
              @ ''--- Invoice 2 (b.png) ---'' @ nl @ ''d2''"
    by code_simp
  have h4: "map_of (metadatas example_results ! 0) ''file_name'' = Some (JStr ''a.png'')"
    and h5: "map_of (metadatas example_results ! 1) ''file_name'' = Some (JStr ''b.png'')"
    by (simp_all add: example_results_def)
  from format_retrieved_context_blocks [OF h1 h2 h3] v h1 h2 h4 h5 show ?thesis by simp
qed

lemma chat_loop_error:
  "fst (chat_loop self inputs tr) = Inl e \<Longrightarrow>
   e = EOFError \<and> (\<forall>l\<in>set inputs. lower (strip l) \<notin> set exit_words)"
proof (induction inputs arbitrary: tr)
  case Nil
  then show ?case by simp
next
  case (Cons line rest)
  show ?case
    using Cons.prems Cons.IH
    by (auto simp: Let_def split: if_splits prod.splits sum.splits)
qed

text \<open>
  C2.  In the interactive session: when the stripped, lowercased line is one of
  \<^verbatim>\<open>quit\<close>, \<^verbatim>\<open>exit\<close>, \<^verbatim>\<open>q\<close>, the loop ends normally, having added to the trace only the prompt
  and \<^verbatim>\<open>Goodbye!\<close>, so the Answer Generator is not invoked and the lines after it are not
  read; when any other non-empty line makes \<^verbatim>\<open>generate_answer\<close> raise, the loop prints
  \<^verbatim>\<open>Error: \<close> with the message and goes on with the next line; and the session as a whole
  ends with an error only by the end of its input, never by an error of a query.
\<close>

theorem chat_session:
  "(lower (strip word) \<in> set exit_words \<longrightarrow>
      chat_loop self (word # unread) tr1
        = (Inr (), tr1 @ [Prompted you_prompt, Printed ''Goodbye!'']))
   \<and> (lower (strip line) \<notin> set exit_words \<and> strip line \<noteq> []
        \<and> generate_answer self (strip line) 5 (tr @ [Prompted you_prompt]) = (Inl e, tr') \<longrightarrow>
      chat_loop self (line # rest) tr
        = chat_loop self rest (tr' @ [Printed (''Error: '' @ str_error e)]))
   \<and> (fst (chat self inputs tr0) = Inl e0 \<longrightarrow>
        e0 = EOFError \<and> (\<forall>l\<in>set inputs. lower (strip l) \<notin> set exit_words))"
proof (intro conjI impI ballI)
  assume "lower (strip word) \<in> set exit_words"
  then show "chat_loop self (word # unread) tr1
      = (Inr (), tr1 @ [Prompted you_prompt, Printed ''Goodbye!''])"
    by (simp add: Let_def)
next
  assume "lower (strip line) \<notin> set exit_words \<and> strip line \<noteq> []
        \<and> generate_answer self (strip line) 5 (tr @ [Prompted you_prompt]) = (Inl e, tr')"
  then show "chat_loop self (line # rest) tr
        = chat_loop self rest (tr' @ [Printed (''Error: '' @ str_error e)])"
    by (simp add: Let_def)
next
  assume "fst (chat self inputs tr0) = Inl e0"
  then show "e0 = EOFError" using chat_loop_error [of self inputs "tr0 @ banner" e0]
    by (simp add: chat_def)
next
  fix l assume "fst (chat self inputs tr0) = Inl e0" "l \<in> set inputs"
  then show "lower (strip l) \<notin> set exit_words" using chat_loop_error [of self inputs "tr0 @ banner" e0]
    by (simp add: chat_def)
qed

text \<open>An instance: a session whose embedding provider is down.\<close>

theorem chat_session_witness:
  "lower (strip '' Q '') \<in> set exit_words
   \<and> chat_loop example_rag_down ['' Q '', ''never read''] []
       = (Inr (), [Prompted you_prompt, Printed ''Goodbye!''])
   \<and> lower (strip ''hello '') \<notin> set exit_words
   \<and> strip ''hello '' \<noteq> []
   \<and> generate_answer example_rag_down (strip ''hello '') 5 ([] @ [Prompted you_prompt])
       = (Inl (ProviderError ''connection refused''),
          [Prompted you_prompt, Printed (nl @ ''Query: hello''), Encoded ''hello''])
   \<and> chat_loop example_rag_down [''hello '', ''quit''] []
       = chat_loop example_rag_down [''quit'']
           ([Prompted you_prompt, Printed (nl @ ''Query: hello''), Encoded ''hello'']
            @ [Printed (''Error: '' @ str_error (ProviderError ''connection refused''))])
   \<and> fst (chat example_rag_down [''hello ''] []) = Inl EOFError"
proof -
  have s1: "lower (strip '' Q '') \<in> set exit_words" by code_simp
  have s2: "lower (strip ''hello '') \<notin> set exit_words" by code_simp
  have s3: "strip ''hello '' \<noteq> []" by code_simp
  have s4: "strip ''hello '' = ''hello''" by code_simp
  have g: "generate_answer example_rag_down (strip ''hello '') 5 ([] @ [Prompted you_prompt])
       = (Inl (ProviderError ''connection refused''),
          [Prompted you_prompt, Printed (nl @ ''Query: hello''), Encoded ''hello''])"
    by (simp add: s4 generate_answer_def retrieve_def example_rag_down_def)
  have e: "fst (chat example_rag_down [''hello ''] []) = Inl EOFError"
    by code_simp
  note T = chat_session [where word = "'' Q ''" and self = example_rag_down
      and unread = "[''never read'']" and ?tr1.0 = "[]" and line = "''hello ''"
      and e = "ProviderError ''connection refused''" and tr = "[]"
      and tr' = "[Prompted you_prompt, Printed (nl @ ''Query: hello''), Encoded ''hello'']"
      and rest = "[''quit'']" and inputs = "[''hello '']" and ?tr0.0 = "[]" and ?e0.0 = EOFError]
  from T s1 s2 s3 g e show ?thesis by simp
qed

section \<open>Properties of the Embedding Indexer\<close>

subsection \<open>The store\<close>

lemma upsert_keys: "fst ` set (upsert coll kv) = insert (fst kv) (fst ` set coll)"
  by (simp add: upsert_def dom_update)

lemma upsert_distinct: "distinct (map fst coll) \<Longrightarrow> distinct (map fst (upsert coll kv))"
  by (simp add: upsert_def distinct_update)

lemma update_entry: "x \<in> set (AList.update k v al) \<Longrightarrow> x \<in> set al \<or> x = (k, v)"
  by (induction al) (auto split: if_splits)

lemma upsert_entry: "x \<in> set (upsert coll kv) \<Longrightarrow> x \<in> set coll \<or> x = kv"
  using update_entry [of x "fst kv" "snd kv" coll] by (simp add: upsert_def)

lemma foldl_upsert_keys:
  "fst ` set (foldl upsert coll kvs) = fst ` set coll \<union> fst ` set kvs"
  by (induction kvs arbitrary: coll) (auto simp: upsert_keys)

lemma foldl_upsert_distinct:
  "distinct (map fst coll) \<Longrightarrow> distinct (map fst (foldl upsert coll kvs))"
  by (induction kvs arbitrary: coll) (auto simp: upsert_distinct)

lemma foldl_upsert_entry:
  "x \<in> set (foldl upsert coll kvs) \<Longrightarrow> x \<in> set coll \<or> x \<in> set kvs"
proof (induction kvs arbitrary: coll)
  case Nil
  then show ?case by simp
next
  case (Cons kv kvs)
  from Cons.prems have "x \<in> set (foldl upsert (upsert coll kv) kvs)" by simp
  from Cons.IH [OF this] show ?case using upsert_entry [of x coll kv] by auto
qed

text \<open>Upserting entries whose keys are new and pairwise distinct appends them.\<close>

lemma update_fresh: "k \<notin> fst ` set al \<Longrightarrow> AList.update k v al = al @ [(k, v)]"
  by (induction al) auto

lemma foldl_upsert_fresh:
  "distinct (map fst kvs) \<Longrightarrow> fst ` set coll \<inter> fst ` set kvs = {} \<Longrightarrow>
   foldl upsert coll kvs = coll @ kvs"
proof (induction kvs arbitrary: coll)
  case Nil
  then show ?case by simp
next
  case (Cons kv kvs)
  from Cons.prems(2) have fresh: "fst kv \<notin> fst ` set coll" by auto
  then have u: "upsert coll kv = coll @ [kv]"
    by (simp add: upsert_def update_fresh)
  have "fst ` set (coll @ [kv]) \<inter> fst ` set kvs = {}"
    using Cons.prems by auto
  moreover have "distinct (map fst kvs)" using Cons.prems(1) by simp
  ultimately have "foldl upsert (coll @ [kv]) kvs = (coll @ [kv]) @ kvs"
    by (rule Cons.IH [rotated])
  with u show ?case by simp
qed

subsection \<open>One batch\<close>

lemma id_string_Inr: "id_string v = Inr k \<Longrightarrow> v = JStr k"
  by (cases v) auto

lemma chunk_meta_Inr:
  assumes "chunk_meta chunk = Inr meta"
  shows "\<exists>md file_name source_index has_image.
      subscript chunk ''metadata'' = Inr md
    \<and> subscript md ''file_name'' = Inr file_name
    \<and> subscript md ''source_index'' = Inr source_index
    \<and> subscript md ''has_image'' = Inr has_image
    \<and> meta = [(''file_name'', file_name), (''source_index'', source_index),
               (''has_image'', has_image)]"
  using assms by (auto simp: chunk_meta_def split: sum.splits)

text \<open>What a batch that went through has stored.\<close>

lemma process_batch_Inr:
  assumes "process_batch encode coll batch = Inr coll'"
  shows "\<exists>keys embeddings texts metas.
      length keys = length batch \<and> length embeddings = length batch
    \<and> length texts = length batch \<and> length metas = length batch
    \<and> (\<forall>j<length batch.
          subscript (batch ! j) ''id'' = Inr (JStr (keys ! j))
        \<and> subscript (batch ! j) ''text'' = Inr (texts ! j)
        \<and> chunk_meta (batch ! j) = Inr (metas ! j))
    \<and> coll' = foldl upsert coll (zip keys (zip embeddings (zip texts metas)))"
proof -
  from assms obtain ids texts metas embeddings keys where
    ids: "map_err (\<lambda>chunk. subscript chunk ''id'') batch = Inr ids"
    and texts: "map_err (\<lambda>chunk. subscript chunk ''text'') batch = Inr texts"
    and metas: "map_err chunk_meta batch = Inr metas"
    and lens: "length texts = length ids" "length embeddings = length ids" "length metas = length ids"
    and keys: "map_err id_string ids = Inr keys"
    and coll': "coll' = foldl upsert coll (zip keys (zip embeddings (zip texts metas)))"
    by (auto simp: process_batch_def collection_add_def split: sum.splits if_splits)
  note I = map_err_Inr [OF ids] and T = map_err_Inr [OF texts] and M = map_err_Inr [OF metas]
    and K = map_err_Inr [OF keys]
  have "subscript (batch ! j) ''id'' = Inr (JStr (keys ! j))" if "j < length batch" for j
  proof -
    from K I that have "id_string (ids ! j) = Inr (keys ! j)" by simp
    from id_string_Inr [OF this] I that show ?thesis by simp
  qed
  with I T M K lens coll' show ?thesis by (intro exI [of _ keys] exI [of _ embeddings] exI [of _ texts] exI [of _ metas]) auto
qed

subsection \<open>The loop\<close>

lemma range_step_Nil: "stop \<le> i \<Longrightarrow> range_step i stop step = []"
  by (simp add: range_step.simps)

lemma range_step_Cons:
  "0 < step \<Longrightarrow> i < stop \<Longrightarrow> range_step i stop step = i # range_step (i + step) stop step"
  by (subst range_step.simps) simp

lemma index_batches_entries:
  assumes "index_batches encode chunks bs starts coll = (None, coll')"
    and "(k, e, doc, meta) \<in> set coll'"
  shows "(k, e, doc, meta) \<in> set coll
    \<or> (\<exists>chunk\<in>set chunks. subscript chunk ''id'' = Inr (JStr k)
          \<and> subscript chunk ''text'' = Inr doc \<and> chunk_meta chunk = Inr meta)"
  using assms
proof (induction starts arbitrary: coll)
  case Nil
  then show ?case by simp
next
  case (Cons i starts)
  let ?batch = "take bs (drop i chunks)"
  from Cons.prems(1) obtain c1 where c1: "process_batch encode coll ?batch = Inr c1"
    and rest: "index_batches encode chunks bs starts c1 = (None, coll')"
    by (auto split: sum.splits)
  from Cons.IH [OF rest Cons.prems(2)] show ?case
  proof
    assume in_c1: "(k, e, doc, meta) \<in> set c1"
    from process_batch_Inr [OF c1] obtain keys embeddings texts metas where
      len: "length keys = length ?batch" "length embeddings = length ?batch"
           "length texts = length ?batch" "length metas = length ?batch"
      and each: "\<forall>j<length ?batch.
          subscript (?batch ! j) ''id'' = Inr (JStr (keys ! j))
        \<and> subscript (?batch ! j) ''text'' = Inr (texts ! j)
        \<and> chunk_meta (?batch ! j) = Inr (metas ! j)"
      and c1_eq: "c1 = foldl upsert coll (zip keys (zip embeddings (zip texts metas)))"
      by blast
    from in_c1 c1_eq foldl_upsert_entry
    have "(k, e, doc, meta) \<in> set coll
        \<or> (k, e, doc, meta) \<in> set (zip keys (zip embeddings (zip texts metas)))"
      by blast
    then show ?thesis
    proof
      assume "(k, e, doc, meta) \<in> set coll"
      then show ?thesis by simp
    next
      assume "(k, e, doc, meta) \<in> set (zip keys (zip embeddings (zip texts metas)))"
      then obtain j where j: "j < length ?batch" and kj: "keys ! j = k"
        and dj: "texts ! j = doc" and mj: "metas ! j = meta"
        using len by (auto simp: in_set_zip)
      have "?batch ! j \<in> set chunks"
        using j by (meson in_set_dropD in_set_takeD nth_mem)
      with each j kj dj mj show ?thesis by auto
    qed
  next
    assume "\<exists>chunk\<in>set chunks. subscript chunk ''id'' = Inr (JStr k)
          \<and> subscript chunk ''text'' = Inr doc \<and> chunk_meta chunk = Inr meta"
    then show ?thesis by simp
  qed
qed

lemma index_batches_distinct:
  "index_batches encode chunks bs starts coll = (None, coll') \<Longrightarrow>
   distinct (map fst coll) \<Longrightarrow> distinct (map fst coll')"
proof (induction starts arbitrary: coll)
  case Nil
  then show ?case by simp
next
  case (Cons i starts)
  from Cons.prems(1) obtain c1 where c1: "process_batch encode coll (take bs (drop i chunks)) = Inr c1"
    and rest: "index_batches encode chunks bs starts c1 = (None, coll')"
    by (auto split: sum.splits)
  from process_batch_Inr [OF c1] Cons.prems(2) have "distinct (map fst c1)"
    by (auto simp: foldl_upsert_distinct)
  from Cons.IH [OF rest this] show ?case .
qed

text \<open>With a positive batch size the batches cover the list: the keys stored are the ids.\<close>

lemma index_batches_keys:
  assumes "0 < bs"
    and "index_batches encode chunks bs (range_step i (length chunks) bs) coll = (None, coll')"
  shows "\<exists>keys. map (\<lambda>c. subscript c ''id'') (drop i chunks) = map (\<lambda>k. Inr (JStr k)) keys
    \<and> fst ` set coll' = fst ` set coll \<union> set keys"
  using assms
proof (induction i "length chunks" bs arbitrary: coll rule: range_step.induct)
  case (1 i step)
  note pos = "1.prems"(1) and run = "1.prems"(2)
  show ?case
  proof (cases "length chunks \<le> i")
    case True
    with run show ?thesis by (simp add: range_step_Nil)
  next
    case False
    let ?batch = "take step (drop i chunks)"
    from False pos run obtain c1 where
      c1: "process_batch encode coll ?batch = Inr c1"
      and rest: "index_batches encode chunks step (range_step (i + step) (length chunks) step) c1
                 = (None, coll')"
      by (auto simp: range_step_Cons split: sum.splits)
    from "1.hyps" [OF _ pos rest] False pos obtain keys2 where
      k2: "map (\<lambda>c. subscript c ''id'') (drop (i + step) chunks) = map (\<lambda>k. Inr (JStr k)) keys2"
      and d2: "fst ` set coll' = fst ` set c1 \<union> set keys2"
      by auto
    from process_batch_Inr [OF c1] obtain keys embeddings texts metas where
      len: "length keys = length ?batch" "length embeddings = length ?batch"
           "length texts = length ?batch" "length metas = length ?batch"
      and each: "\<forall>j<length ?batch. subscript (?batch ! j) ''id'' = Inr (JStr (keys ! j))"
      and c1_eq: "c1 = foldl upsert coll (zip keys (zip embeddings (zip texts metas)))"
      by blast
    have k1: "map (\<lambda>c. subscript c ''id'') ?batch = map (\<lambda>k. Inr (JStr k)) keys"
      using len each by (intro nth_equalityI) auto
    have "map fst (zip keys (zip embeddings (zip texts metas))) = keys"
      using len by (simp add: map_fst_zip)
    then have "fst ` set (zip keys (zip embeddings (zip texts metas))) = set keys"
      by (metis set_map)
    then have d1: "fst ` set c1 = fst ` set coll \<union> set keys"
      by (simp add: c1_eq foldl_upsert_keys)
    have split: "drop i chunks = ?batch @ drop (i + step) chunks"
      by (metis add.commute append_take_drop_id drop_drop)
    have "map (\<lambda>c. subscript c ''id'') (drop i chunks) = map (\<lambda>k. Inr (JStr k)) (keys @ keys2)"
      by (subst split) (simp add: k1 k2)
    moreover have "fst ` set coll' = fst ` set coll \<union> set (keys @ keys2)"
      using d1 d2 by auto
    ultimately show ?thesis by blast
  qed
qed

subsection \<open>The build\<close>

lemma build_unfold:
  "build_invoice_vectordb encode chunks db name bs =
     (case py_range (length chunks) bs of
        Inl e \<Rightarrow> (Inl e, db(name \<mapsto> []))
      | Inr starts \<Rightarrow>
          (case index_batches encode chunks (nat bs) starts [] of
             (Some e, coll) \<Rightarrow> (Inl e, db(name \<mapsto> coll))
           | (None, coll) \<Rightarrow> (Inr coll, db(name \<mapsto> coll))))"
  by (cases "db name")
    (auto simp: build_invoice_vectordb_def delete_collection_def create_collection_def
      split: sum.splits option.splits prod.splits)

lemma build_Inr:
  assumes "fst (build_invoice_vectordb encode chunks db name bs) = Inr coll"
  shows "\<exists>starts. py_range (length chunks) bs = Inr starts
    \<and> index_batches encode chunks (nat bs) starts [] = (None, coll)"
  using assms by (auto simp: build_unfold split: sum.splits option.splits prod.splits)

lemma build_from_loop:
  assumes "py_range (length chunks) bs = Inr starts"
    and "index_batches encode chunks (nat bs) starts [] = (None, coll)"
  shows "build_invoice_vectordb encode chunks db name bs = (Inr coll, db(name \<mapsto> coll))"
  using assms by (simp add: build_unfold)

text \<open>
  The build returns a collection whenever the batch size is not zero, every chunk is
  well-formed and the provider answers every batch with one embedding per text.
\<close>

lemma well_formed_chunk_fields:
  assumes "well_formed_chunk chunk"
  shows "\<exists>k t m. subscript chunk ''id'' = Inr (JStr k) \<and> subscript chunk ''text'' = Inr t
    \<and> chunk_meta chunk = Inr m"
  using assms
  by (auto simp: well_formed_chunk_def has_key_def chunk_meta_def split: sum.splits json.splits)

lemma process_batch_total:
  assumes "list_all well_formed_chunk batch"
    and "\<And>texts. \<exists>es. encode texts = Inr es \<and> length es = length texts"
  shows "\<exists>coll'. process_batch encode coll batch = Inr coll'"
proof -
  have wf: "\<And>c. c \<in> set batch \<Longrightarrow> well_formed_chunk c"
    using assms(1) by (simp add: list_all_iff)
  obtain ids where ids: "map_err (\<lambda>chunk. subscript chunk ''id'') batch = Inr ids"
    using map_err_total [of batch "\<lambda>chunk. subscript chunk ''id''"] well_formed_chunk_fields wf
    by blast
  obtain texts where texts: "map_err (\<lambda>chunk. subscript chunk ''text'') batch = Inr texts"
    using map_err_total [of batch "\<lambda>chunk. subscript chunk ''text''"] well_formed_chunk_fields wf
    by blast
  obtain metas where metas: "map_err chunk_meta batch = Inr metas"
    using map_err_total [of batch chunk_meta] well_formed_chunk_fields wf by blast
  obtain es where es: "encode texts = Inr es" "length es = length texts"
    using assms(2) by blast
  note I = map_err_Inr [OF ids] and T = map_err_Inr [OF texts] and M = map_err_Inr [OF metas]
  have "\<exists>k. id_string v = Inr k" if "v \<in> set ids" for v
  proof -
    from that obtain j where j: "j < length ids" "v = ids ! j" by (auto simp: in_set_conv_nth)
    with I have "subscript (batch ! j) ''id'' = Inr v" by simp
    moreover have "well_formed_chunk (batch ! j)" using j I wf by simp
    ultimately show ?thesis using well_formed_chunk_fields by fastforce
  qed
  then obtain keys where keys: "map_err id_string ids = Inr keys"
    using map_err_total [of ids id_string] by blast
  show ?thesis
    using ids texts metas es keys I T M
    by (simp add: process_batch_def collection_add_def)
qed

lemma index_batches_total:
  assumes "list_all well_formed_chunk chunks"
    and "\<And>texts. \<exists>es. encode texts = Inr es \<and> length es = length texts"
  shows "\<exists>coll'. index_batches encode chunks bs starts coll = (None, coll')"
proof (induction starts arbitrary: coll)
  case Nil
  then show ?case by simp
next
  case (Cons i starts)
  have "list_all well_formed_chunk (take bs (drop i chunks))"
    using assms(1) by (auto simp: list_all_iff dest: in_set_takeD in_set_dropD)
  from process_batch_total [OF this assms(2)] obtain c1 where
    "process_batch encode coll (take bs (drop i chunks)) = Inr c1" by blast
  with Cons.IH [of c1] show ?case by simp
qed

lemma build_returns:
  assumes "batch_size \<noteq> 0" and "list_all well_formed_chunk chunks"
    and "\<And>texts. \<exists>es. encode texts = Inr es \<and> length es = length texts"
  shows "\<exists>coll. build_invoice_vectordb encode chunks db name batch_size
                 = (Inr coll, db(name \<mapsto> coll))"
proof -
  from assms(1) have "\<exists>starts. py_range (length chunks) batch_size = Inr starts"
    by (cases "batch_size < 0") (simp_all add: py_range_def)
  then obtain starts where r: "py_range (length chunks) batch_size = Inr starts" by blast
  from index_batches_total [OF assms(2,3)] obtain coll where
    "index_batches encode chunks (nat batch_size) starts [] = (None, coll)" by blast
  from build_from_loop [OF r this] show ?thesis by blast
qed

text \<open>
  C6, amended.  After a successful build with a batch size of at least 1 over chunks with
  pairwise distinct ids, the count of the collection is the number of chunks; and whatever
  the store held before, under the same name or any other, the build returns that same
  collection and leaves it under the name: an earlier collection of that name is replaced
  as a whole.
\<close>

theorem build_count_and_replace:
  assumes "1 \<le> batch_size"
    and "distinct (map (\<lambda>c. subscript c ''id'') chunks)"
    and "fst (build_invoice_vectordb encode chunks db name batch_size) = Inr coll"
  shows "collection_count coll = length chunks
    \<and> (\<forall>db'. build_invoice_vectordb encode chunks db' name batch_size
              = (Inr coll, db'(name \<mapsto> coll)))"
proof -
  from build_Inr [OF assms(3)] obtain starts where
    r: "py_range (length chunks) batch_size = Inr starts"
    and l: "index_batches encode chunks (nat batch_size) starts [] = (None, coll)"
    by blast
  from r assms(1) have starts: "starts = range_step 0 (length chunks) (nat batch_size)"
    by (auto simp: py_range_def split: if_splits)
  from assms(1) have pos: "0 < nat batch_size" by simp
  from index_batches_keys [OF pos l [unfolded starts]] obtain keys where
    ids: "map (\<lambda>c. subscript c ''id'') chunks = map (\<lambda>k. Inr (JStr k)) keys"
    and dom: "fst ` set coll = set keys"
    by auto
  from index_batches_distinct [OF l] have dist: "distinct (map fst coll)" by simp
  from ids assms(2) have "distinct (map (\<lambda>k. Inr (JStr k) :: error + json) keys)" by simp
  then have dk: "distinct keys" by (simp add: distinct_map)
  from ids have lk: "length keys = length chunks" by (metis length_map)
  have "length coll = card (set (map fst coll))"
    using dist by (metis distinct_card length_map)
  also have "\<dots> = card (set keys)" using dom by simp
  also have "\<dots> = length chunks" using dk lk by (simp add: distinct_card)
  finally have "collection_count coll = length chunks" by (simp add: collection_count_def)
  moreover have "build_invoice_vectordb encode chunks db' name batch_size
              = (Inr coll, db'(name \<mapsto> coll))" for db'
    by (rule build_from_loop [OF r l])
  ultimately show ?thesis by simp
qed

text \<open>An instance: three chunks in batches of two, over a store that holds a stale collection.\<close>

theorem build_count_and_replace_witness:
  "(1::int) \<le> 2
   \<and> distinct (map (\<lambda>c. subscript c ''id'') example_chunks)
   \<and> fst (build_invoice_vectordb example_encode example_chunks example_store example_name 2)
       = Inr example_coll
   \<and> collection_count example_coll = length example_chunks
   \<and> build_invoice_vectordb example_encode example_chunks Map.empty example_name 2
       = (Inr example_coll, Map.empty(example_name \<mapsto> example_coll))"
proof -
  have h1: "(1::int) \<le> 2" by simp
  have h2: "distinct (map (\<lambda>c. subscript c ''id'') example_chunks)" by code_simp
  have h3: "fst (build_invoice_vectordb example_encode example_chunks example_store example_name 2)
       = Inr example_coll" by code_simp
  from build_count_and_replace [OF h1 h2 h3] h1 h2 h3 show ?thesis by blast
qed

text \<open>
  C6 as stated, for every batch size, fails on a negative one: the range of batch starts is
  empty, the loop body never runs, and the build succeeds with an empty collection.
\<close>

theorem build_negative_batch_counterexample:
  "distinct (map (\<lambda>c. subscript c ''id'') [example_chunk ''invoice_0''])
   \<and> fst (build_invoice_vectordb example_encode [example_chunk ''invoice_0''] Map.empty
            example_name (- 1)) = Inr []
   \<and> collection_count ([] :: nat collection) \<noteq> length [example_chunk ''invoice_0'']"
  by code_simp

lemma distinct_ids_same_chunk:
  assumes "distinct (map (\<lambda>c. subscript c ''id'') chunks)"
    and "a \<in> set chunks" and "b \<in> set chunks"
    and "subscript a ''id'' = subscript b ''id''"
  shows "a = b"
proof -
  from assms(1) have "inj_on (\<lambda>c. subscript c ''id'') (set chunks)" by (simp add: distinct_map)
  from inj_onD [OF this assms(4) assms(2) assms(3)] show ?thesis .
qed

text \<open>
  C10, amended.  After a successful build with a batch size of at least 1: for every chunk,
  the collection holds an entry under the chunk's id whose metadata are exactly the three
  entries \<^verbatim>\<open>file_name\<close>, \<^verbatim>\<open>source_index\<close> and \<^verbatim>\<open>has_image\<close>, read from the metadata of a chunk
  with that id, which is the chunk itself when the ids are pairwise distinct; every entry of
  the collection is of this kind and has no \<^verbatim>\<open>structured_data\<close>, although every chunk made
  by the Chunk Builder has one.
\<close>

theorem indexer_persists_three_keys:
  assumes "1 \<le> batch_size"
    and "fst (build_invoice_vectordb encode chunks db name batch_size) = Inr coll"
  shows "(\<forall>chunk\<in>set chunks. \<exists>k e doc meta src md file_name source_index has_image.
        subscript chunk ''id'' = Inr (JStr k)
      \<and> (k, e, doc, meta) \<in> set coll
      \<and> src \<in> set chunks
      \<and> subscript src ''id'' = Inr (JStr k)
      \<and> subscript src ''metadata'' = Inr md
      \<and> subscript md ''file_name'' = Inr file_name
      \<and> subscript md ''source_index'' = Inr source_index
      \<and> subscript md ''has_image'' = Inr has_image
      \<and> meta = [(''file_name'', file_name), (''source_index'', source_index),
                 (''has_image'', has_image)]
      \<and> (distinct (map (\<lambda>c. subscript c ''id'') chunks) \<longrightarrow> src = chunk))
    \<and> (\<forall>entry\<in>set coll. \<exists>chunk\<in>set chunks. \<exists>md file_name source_index has_image.
        subscript chunk ''id'' = Inr (JStr (fst entry))
      \<and> subscript chunk ''metadata'' = Inr md
      \<and> subscript md ''file_name'' = Inr file_name
      \<and> subscript md ''source_index'' = Inr source_index
      \<and> subscript md ''has_image'' = Inr has_image
      \<and> snd (snd (snd entry)) = [(''file_name'', file_name), (''source_index'', source_index),
                 (''has_image'', has_image)]
      \<and> map_of (snd (snd (snd entry))) ''structured_data'' = None)
    \<and> (fst (create_invoice_chunks invoices) = Inr chunks \<longrightarrow>
         (\<forall>c\<in>set chunks. \<exists>md d. subscript c ''metadata'' = Inr md
             \<and> subscript md ''structured_data'' = Inr d))"
proof -
  from build_Inr [OF assms(2)] obtain starts where
    r: "py_range (length chunks) batch_size = Inr starts"
    and l: "index_batches encode chunks (nat batch_size) starts [] = (None, coll)"
    by blast
  from r assms(1) have starts: "starts = range_step 0 (length chunks) (nat batch_size)"
    by (auto simp: py_range_def split: if_splits)
  from assms(1) have pos: "0 < nat batch_size" by simp
  from index_batches_keys [OF pos l [unfolded starts]] obtain keys where
    ids: "map (\<lambda>c. subscript c ''id'') chunks = map (\<lambda>k. Inr (JStr k)) keys"
    and dom: "fst ` set coll = set keys"
    by auto
  have from_chunk: "\<exists>src\<in>set chunks. \<exists>md file_name source_index has_image.
        subscript src ''id'' = Inr (JStr k)
      \<and> subscript src ''metadata'' = Inr md
      \<and> subscript md ''file_name'' = Inr file_name
      \<and> subscript md ''source_index'' = Inr source_index
      \<and> subscript md ''has_image'' = Inr has_image
      \<and> meta = [(''file_name'', file_name), (''source_index'', source_index),
                 (''has_image'', has_image)]"
    if "(k, e, doc, meta) \<in> set coll" for k e doc meta
  proof -
    from index_batches_entries [OF l that] obtain src where
      c: "src \<in> set chunks" "subscript src ''id'' = Inr (JStr k)" "chunk_meta src = Inr meta"
      by auto
    from chunk_meta_Inr [OF c(3)] c(1,2) show ?thesis by blast
  qed
  have A: "\<exists>k e doc meta src md file_name source_index has_image.
        subscript chunk ''id'' = Inr (JStr k)
      \<and> (k, e, doc, meta) \<in> set coll
      \<and> src \<in> set chunks
      \<and> subscript src ''id'' = Inr (JStr k)
      \<and> subscript src ''metadata'' = Inr md
      \<and> subscript md ''file_name'' = Inr file_name
      \<and> subscript md ''source_index'' = Inr source_index
      \<and> subscript md ''has_image'' = Inr has_image
      \<and> meta = [(''file_name'', file_name), (''source_index'', source_index),
                 (''has_image'', has_image)]
      \<and> (distinct (map (\<lambda>c. subscript c ''id'') chunks) \<longrightarrow> src = chunk)"
    if chunk: "chunk \<in> set chunks" for chunk
  proof -
    from chunk have "subscript chunk ''id'' \<in> set (map (\<lambda>c. subscript c ''id'') chunks)" by simp
    with ids obtain k where k: "k \<in> set keys" "subscript chunk ''id'' = Inr (JStr k)" by auto
    from k(1) dom have "k \<in> fst ` set coll" by simp
    then obtain x where x: "x \<in> set coll" "fst x = k" by auto
    obtain e doc meta where "x = (k, e, doc, meta)"
      using x(2) by (cases x) auto
    with x(1) have entry: "(k, e, doc, meta) \<in> set coll" by simp
    from from_chunk [OF entry] obtain src md file_name source_index has_image where
      s: "src \<in> set chunks" "subscript src ''id'' = Inr (JStr k)"
        "subscript src ''metadata'' = Inr md"
        "subscript md ''file_name'' = Inr file_name"
        "subscript md ''source_index'' = Inr source_index"
        "subscript md ''has_image'' = Inr has_image"
        "meta = [(''file_name'', file_name), (''source_index'', source_index),
                 (''has_image'', has_image)]"
      by blast
    have "src = chunk" if "distinct (map (\<lambda>c. subscript c ''id'') chunks)"
      using distinct_ids_same_chunk [OF that s(1) chunk] s(2) k(2) by simp
    with k(2) entry s show ?thesis by blast
  qed
  have B: "\<exists>chunk\<in>set chunks. \<exists>md file_name source_index has_image.
        subscript chunk ''id'' = Inr (JStr (fst entry))
      \<and> subscript chunk ''metadata'' = Inr md
      \<and> subscript md ''file_name'' = Inr file_name
      \<and> subscript md ''source_index'' = Inr source_index
      \<and> subscript md ''has_image'' = Inr has_image
      \<and> snd (snd (snd entry)) = [(''file_name'', file_name), (''source_index'', source_index),
                 (''has_image'', has_image)]
      \<and> map_of (snd (snd (snd entry))) ''structured_data'' = None"
    if "entry \<in> set coll" for entry
  proof -
    obtain k e doc meta where e: "entry = (k, e, doc, meta)" by (cases entry) auto
    from from_chunk [of k e doc meta] that e obtain src md file_name source_index has_image where
      s: "src \<in> set chunks" "subscript src ''id'' = Inr (JStr k)"
        "subscript src ''metadata'' = Inr md"
        "subscript md ''file_name'' = Inr file_name"
        "subscript md ''source_index'' = Inr source_index"
        "subscript md ''has_image'' = Inr has_image"
        "meta = [(''file_name'', file_name), (''source_index'', source_index),
                 (''has_image'', has_image)]"
      by blast
    have "map_of meta ''structured_data'' = None" by (simp add: s(7))
    with s e show ?thesis by auto
  qed
  show ?thesis
    apply (intro conjI ballI impI)
    subgoal for chunk by (rule A)
    subgoal for entry by (rule B)
    subgoal by (rule chunks_carry_structured_data)
    done
qed

text \<open>An instance: the second of three chunks and the entry stored for it.\<close>

theorem indexer_persists_three_keys_witness:
  "(1::int) \<le> 2
   \<and> fst (build_invoice_vectordb example_encode example_chunks example_store example_name 2)
       = Inr example_coll
   \<and> example_chunk ''invoice_1'' \<in> set example_chunks
   \<and> (''invoice_1'', (28, JStr (''Invoice: a.png'' @ nl @ nl @ ''Vendor: Acme''), example_meta))
       \<in> set example_coll
   \<and> map_of example_meta ''structured_data'' = None
   \<and> subscript (example_chunk ''invoice_1'') ''id'' = Inr (JStr ''invoice_1'')"
proof -
  have h1: "(1::int) \<le> 2" by simp
  have h2: "fst (build_invoice_vectordb example_encode example_chunks example_store example_name 2)
       = Inr example_coll" by code_simp
  have c: "example_chunk ''invoice_1'' \<in> set example_chunks" by (simp add: example_chunks_def)
  have e: "(''invoice_1'', (28, JStr (''Invoice: a.png'' @ nl @ nl @ ''Vendor: Acme''), example_meta))
       \<in> set example_coll" by (simp add: example_coll_def)
  have i: "subscript (example_chunk ''invoice_1'') ''id'' = Inr (JStr ''invoice_1'')"
    by (simp add: example_chunk_def)
  note T = indexer_persists_three_keys [OF h1 h2, of "[example_invoice]"]
  from T [THEN conjunct2, THEN conjunct1, THEN bspec, OF e]
  have "map_of example_meta ''structured_data'' = None" by auto
  with h1 h2 c e i show ?thesis by simp
qed

text \<open>
  C10 as stated, for every build, fails on a negative batch size: the build succeeds and
  nothing is persisted for any chunk.
\<close>

theorem indexer_negative_batch_counterexample:
  "fst (build_invoice_vectordb example_encode
          [example_chunk ''invoice_0'', example_chunk ''invoice_1''] Map.empty example_name (- 32))
     = Inr []
   \<and> subscript (example_chunk ''invoice_0'') ''id'' = Inr (JStr ''invoice_0'')
   \<and> map_of ([] :: nat collection) ''invoice_0'' = None"
  by code_simp

subsection \<open>Batch boundaries\<close>

lemma map_err_append:
  "map_err f (xs @ ys) =
     (case map_err f xs of
        Inl e \<Rightarrow> Inl e
      | Inr as \<Rightarrow> (case map_err f ys of Inl e \<Rightarrow> Inl e | Inr bs \<Rightarrow> Inr (as @ bs)))"
  by (induction xs) (simp_all split: sum.splits)

lemma map_err_append_Inr:
  "map_err f (xs @ ys) = Inr zs \<longleftrightarrow>
     (\<exists>as bs. map_err f xs = Inr as \<and> map_err f ys = Inr bs \<and> zs = as @ bs)"
  by (auto simp: map_err_append split: sum.splits)

lemma map_err_length: "map_err f xs = Inr ys \<Longrightarrow> length ys = length xs"
  by (simp add: map_err_Inr)

lemma process_batch_append:
  assumes "embeds_each encode emb"
  shows "process_batch encode coll (xs @ ys) = Inr c2 \<longleftrightarrow>
     (\<exists>c1. process_batch encode coll xs = Inr c1 \<and> process_batch encode c1 ys = Inr c2)"
proof
  assume "process_batch encode coll (xs @ ys) = Inr c2"
  then obtain ids texts metas embeddings keys where
    ids: "map_err (\<lambda>chunk. subscript chunk ''id'') (xs @ ys) = Inr ids"
    and texts: "map_err (\<lambda>chunk. subscript chunk ''text'') (xs @ ys) = Inr texts"
    and metas: "map_err chunk_meta (xs @ ys) = Inr metas"
    and embs: "map_err emb texts = Inr embeddings"
    and keys: "map_err id_string ids = Inr keys"
    and c2: "c2 = foldl upsert coll (zip keys (zip embeddings (zip texts metas)))"
    using assms
    by (auto simp: process_batch_def collection_add_def embeds_each_def split: sum.splits if_splits)
  from ids obtain ids1 ids2 where i: "map_err (\<lambda>chunk. subscript chunk ''id'') xs = Inr ids1"
    "map_err (\<lambda>chunk. subscript chunk ''id'') ys = Inr ids2" "ids = ids1 @ ids2"
    by (auto simp: map_err_append_Inr)
  from texts obtain t1 t2 where t: "map_err (\<lambda>chunk. subscript chunk ''text'') xs = Inr t1"
    "map_err (\<lambda>chunk. subscript chunk ''text'') ys = Inr t2" "texts = t1 @ t2"
    by (auto simp: map_err_append_Inr)
  from metas obtain m1 m2 where m: "map_err chunk_meta xs = Inr m1"
    "map_err chunk_meta ys = Inr m2" "metas = m1 @ m2"
    by (auto simp: map_err_append_Inr)
  from embs t(3) obtain e1 e2 where e: "map_err emb t1 = Inr e1" "map_err emb t2 = Inr e2"
    "embeddings = e1 @ e2"
    by (auto simp: map_err_append_Inr)
  from keys i(3) obtain k1 k2 where k: "map_err id_string ids1 = Inr k1"
    "map_err id_string ids2 = Inr k2" "keys = k1 @ k2"
    by (auto simp: map_err_append_Inr)
  note L = map_err_length [OF i(1)] map_err_length [OF i(2)] map_err_length [OF t(1)]
    map_err_length [OF t(2)] map_err_length [OF m(1)] map_err_length [OF m(2)]
    map_err_length [OF e(1)] map_err_length [OF e(2)] map_err_length [OF k(1)]
    map_err_length [OF k(2)]
  let ?c1 = "foldl upsert coll (zip k1 (zip e1 (zip t1 m1)))"
  have "process_batch encode coll xs = Inr ?c1"
    using assms i t m e k L
    by (simp add: process_batch_def collection_add_def embeds_each_def)
  moreover have "c2 = foldl upsert ?c1 (zip k2 (zip e2 (zip t2 m2)))"
    using L by (simp add: c2 k(3) e(3) t(3) m(3))
  then have "process_batch encode ?c1 ys = Inr c2"
    using assms i t m e k L
    by (simp add: process_batch_def collection_add_def embeds_each_def)
  ultimately show "\<exists>c1. process_batch encode coll xs = Inr c1 \<and> process_batch encode c1 ys = Inr c2"
    by blast
next
  assume "\<exists>c1. process_batch encode coll xs = Inr c1 \<and> process_batch encode c1 ys = Inr c2"
  then obtain c1 where p1: "process_batch encode coll xs = Inr c1"
    and p2: "process_batch encode c1 ys = Inr c2" by blast
  from p1 obtain ids1 t1 m1 e1 k1 where
    a: "map_err (\<lambda>chunk. subscript chunk ''id'') xs = Inr ids1"
       "map_err (\<lambda>chunk. subscript chunk ''text'') xs = Inr t1"
       "map_err chunk_meta xs = Inr m1"
       "map_err emb t1 = Inr e1"
       "map_err id_string ids1 = Inr k1"
       "c1 = foldl upsert coll (zip k1 (zip e1 (zip t1 m1)))"
    using assms
    by (auto simp: process_batch_def collection_add_def embeds_each_def split: sum.splits if_splits)
  from p2 obtain ids2 t2 m2 e2 k2 where
    b: "map_err (\<lambda>chunk. subscript chunk ''id'') ys = Inr ids2"
       "map_err (\<lambda>chunk. subscript chunk ''text'') ys = Inr t2"
       "map_err chunk_meta ys = Inr m2"
       "map_err emb t2 = Inr e2"
       "map_err id_string ids2 = Inr k2"
       "c2 = foldl upsert c1 (zip k2 (zip e2 (zip t2 m2)))"
    using assms
    by (auto simp: process_batch_def collection_add_def embeds_each_def split: sum.splits if_splits)
  note L = map_err_length [OF a(1)] map_err_length [OF a(2)] map_err_length [OF a(3)]
    map_err_length [OF a(4)] map_err_length [OF a(5)] map_err_length [OF b(1)]
    map_err_length [OF b(2)] map_err_length [OF b(3)] map_err_length [OF b(4)]
    map_err_length [OF b(5)]
  have A: "map_err (\<lambda>chunk. subscript chunk ''id'') (xs @ ys) = Inr (ids1 @ ids2)"
    "map_err (\<lambda>chunk. subscript chunk ''text'') (xs @ ys) = Inr (t1 @ t2)"
    "map_err chunk_meta (xs @ ys) = Inr (m1 @ m2)"
    "map_err emb (t1 @ t2) = Inr (e1 @ e2)"
    "map_err id_string (ids1 @ ids2) = Inr (k1 @ k2)"
    using a b by (simp_all add: map_err_append_Inr)
  have "foldl upsert coll (zip (k1 @ k2) (zip (e1 @ e2) (zip (t1 @ t2) (m1 @ m2)))) = c2"
    using L by (simp add: a(6) b(6))
  then show "process_batch encode coll (xs @ ys) = Inr c2"
    using assms A L by (simp add: process_batch_def collection_add_def embeds_each_def)
qed

lemma process_batch_Nil:
  "embeds_each encode emb \<Longrightarrow> process_batch encode coll [] = Inr coll"
  by (simp add: process_batch_def collection_add_def embeds_each_def)

text \<open>With a positive batch size the loop does what one batch holding every chunk does.\<close>

lemma index_batches_one_batch:
  assumes "embeds_each encode emb" and "0 < bs"
  shows "index_batches encode chunks bs (range_step i (length chunks) bs) coll = (None, coll')
    \<longleftrightarrow> process_batch encode coll (drop i chunks) = Inr coll'"
  using assms
proof (induction i "length chunks" bs arbitrary: coll rule: range_step.induct)
  case (1 i step)
  note emb = "1.prems"(1) and pos = "1.prems"(2)
  show ?case
  proof (cases "length chunks \<le> i")
    case True
    then show ?thesis using process_batch_Nil [OF emb] by (auto simp: range_step_Nil)
  next
    case False
    have split: "drop i chunks = take step (drop i chunks) @ drop (i + step) chunks"
      by (metis add.commute append_take_drop_id drop_drop)
    have IH: "index_batches encode chunks step (range_step (i + step) (length chunks) step) c1
        = (None, coll') \<longleftrightarrow> process_batch encode c1 (drop (i + step) chunks) = Inr coll'" for c1
      using "1.hyps" [OF _ emb pos] False pos by simp
    have "index_batches encode chunks step (range_step i (length chunks) step) coll = (None, coll')
      \<longleftrightarrow> (\<exists>c1. process_batch encode coll (take step (drop i chunks)) = Inr c1
            \<and> index_batches encode chunks step (range_step (i + step) (length chunks) step) c1
              = (None, coll'))"
      using False pos by (auto simp: range_step_Cons split: sum.splits)
    also have "\<dots> \<longleftrightarrow> (\<exists>c1. process_batch encode coll (take step (drop i chunks)) = Inr c1
            \<and> process_batch encode c1 (drop (i + step) chunks) = Inr coll')"
      by (simp add: IH)
    also have "\<dots> \<longleftrightarrow> process_batch encode coll (drop i chunks) = Inr coll'"
      by (subst (2) split) (simp add: process_batch_append [OF emb])
    finally show ?thesis .
  qed
qed

text \<open>What one batch stores when the provider embeds each text on its own.\<close>

lemma process_batch_tuples:
  assumes "embeds_each encode emb" and "process_batch encode coll batch = Inr coll'"
  shows "\<exists>keys embeddings texts metas.
      length keys = length batch \<and> length embeddings = length batch
    \<and> length texts = length batch \<and> length metas = length batch
    \<and> (\<forall>j<length batch.
          subscript (batch ! j) ''id'' = Inr (JStr (keys ! j))
        \<and> subscript (batch ! j) ''text'' = Inr (texts ! j)
        \<and> emb (texts ! j) = Inr (embeddings ! j)
        \<and> chunk_meta (batch ! j) = Inr (metas ! j))
    \<and> coll' = foldl upsert coll (zip keys (zip embeddings (zip texts metas)))"
proof -
  from assms obtain ids texts metas embeddings keys where
    ids: "map_err (\<lambda>chunk. subscript chunk ''id'') batch = Inr ids"
    and texts: "map_err (\<lambda>chunk. subscript chunk ''text'') batch = Inr texts"
    and metas: "map_err chunk_meta batch = Inr metas"
    and embs: "map_err emb texts = Inr embeddings"
    and keys: "map_err id_string ids = Inr keys"
    and coll': "coll' = foldl upsert coll (zip keys (zip embeddings (zip texts metas)))"
    by (auto simp: process_batch_def collection_add_def embeds_each_def split: sum.splits if_splits)
  note I = map_err_Inr [OF ids] and T = map_err_Inr [OF texts] and M = map_err_Inr [OF metas]
    and K = map_err_Inr [OF keys] and E = map_err_Inr [OF embs]
  have "subscript (batch ! j) ''id'' = Inr (JStr (keys ! j))" if "j < length batch" for j
  proof -
    from K I that have "id_string (ids ! j) = Inr (keys ! j)" by simp
    from id_string_Inr [OF this] I that show ?thesis by simp
  qed
  moreover have "emb (texts ! j) = Inr (embeddings ! j)" if "j < length batch" for j
    using E T that by simp
  ultimately show ?thesis
    using I T M K E coll'
    by (intro exI [of _ keys] exI [of _ embeddings] exI [of _ texts] exI [of _ metas]) auto
qed

lemma distinct_ids_keys:
  assumes "distinct (map (\<lambda>c. subscript c ''id'') chunks)"
    and "length keys = length chunks"
    and "\<forall>j<length chunks. subscript (chunks ! j) ''id'' = Inr (JStr (keys ! j))"
  shows "distinct keys"
proof -
  have "map (\<lambda>c. subscript c ''id'') chunks = map (\<lambda>k. Inr (JStr k) :: error + json) keys"
    using assms(2,3) by (intro nth_equalityI) auto
  with assms(1) have "distinct (map (\<lambda>k. Inr (JStr k) :: error + json) keys)" by simp
  then show ?thesis by (simp add: distinct_map)
qed

text \<open>
  C7, amended.  For chunks with pairwise distinct ids and an embedding provider that embeds
  each text on its own, whatever batch the text arrives in: a build that succeeds with one
  batch size of at least 1 succeeds with every other, returns the same collection and leaves
  the same store.  That collection is the list of the chunks' tuples in the order of the
  chunks (id, embedding of the text, text, the three metadata entries), so batch boundaries
  do not show in it.
\<close>

theorem batch_size_irrelevant:
  assumes "embeds_each encode emb" and "1 \<le> b1" and "1 \<le> b2"
    and "distinct (map (\<lambda>c. subscript c ''id'') chunks)"
    and "fst (build_invoice_vectordb encode chunks db name b1) = Inr coll"
  shows "build_invoice_vectordb encode chunks db name b2 = (Inr coll, db(name \<mapsto> coll))
    \<and> build_invoice_vectordb encode chunks db name b1 = (Inr coll, db(name \<mapsto> coll))
    \<and> length coll = length chunks
    \<and> (\<forall>j<length chunks. \<exists>k e doc meta.
          coll ! j = (k, e, doc, meta)
        \<and> subscript (chunks ! j) ''id'' = Inr (JStr k)
        \<and> subscript (chunks ! j) ''text'' = Inr doc
        \<and> emb doc = Inr e
        \<and> chunk_meta (chunks ! j) = Inr meta)"
proof -
  have r: "py_range (length chunks) b = Inr (range_step 0 (length chunks) (nat b))" if "1 \<le> b" for b
    using that by (simp add: py_range_def)
  from build_Inr [OF assms(5)] r [OF assms(2)]
  have l1: "index_batches encode chunks (nat b1) (range_step 0 (length chunks) (nat b1)) []
      = (None, coll)" by simp
  have one: "process_batch encode [] chunks = Inr coll"
    using index_batches_one_batch [OF assms(1), of "nat b1" chunks 0 "[]" coll] l1 assms(2) by simp
  have l2: "index_batches encode chunks (nat b2) (range_step 0 (length chunks) (nat b2)) []
      = (None, coll)"
    using index_batches_one_batch [OF assms(1), of "nat b2" chunks 0 "[]" coll] one assms(3) by simp
  from process_batch_tuples [OF assms(1) one] obtain keys embeddings texts metas where
    len: "length keys = length chunks" "length embeddings = length chunks"
         "length texts = length chunks" "length metas = length chunks"
    and each: "\<forall>j<length chunks.
          subscript (chunks ! j) ''id'' = Inr (JStr (keys ! j))
        \<and> subscript (chunks ! j) ''text'' = Inr (texts ! j)
        \<and> emb (texts ! j) = Inr (embeddings ! j)
        \<and> chunk_meta (chunks ! j) = Inr (metas ! j)"
    and coll_eq: "coll = foldl upsert [] (zip keys (zip embeddings (zip texts metas)))"
    by blast
  have dk: "distinct keys"
    using distinct_ids_keys [OF assms(4) len(1)] each by blast
  have "map fst (zip keys (zip embeddings (zip texts metas))) = keys"
    using len by (simp add: map_fst_zip)
  with dk have "distinct (map fst (zip keys (zip embeddings (zip texts metas))))" by simp
  from foldl_upsert_fresh [OF this, of "[]"] coll_eq
  have tuples: "coll = zip keys (zip embeddings (zip texts metas))" by simp
  have length: "length coll = length chunks" using len by (simp add: tuples)
  have nth: "\<exists>k e doc meta.
          coll ! j = (k, e, doc, meta)
        \<and> subscript (chunks ! j) ''id'' = Inr (JStr k)
        \<and> subscript (chunks ! j) ''text'' = Inr doc
        \<and> emb doc = Inr e
        \<and> chunk_meta (chunks ! j) = Inr meta" if "j < length chunks" for j
  proof -
    have "coll ! j = (keys ! j, embeddings ! j, texts ! j, metas ! j)"
      using that len by (simp add: tuples)
    with each that show ?thesis by blast
  qed
  from build_from_loop [OF r [OF assms(3)] l2] build_from_loop [OF r [OF assms(2)] l1] length nth
  show ?thesis by blast
qed

text \<open>An instance: three chunks, one per batch and two per batch.\<close>

theorem batch_size_irrelevant_witness:
  "embeds_each example_encode example_emb \<and> (1::int) \<le> 1 \<and> (1::int) \<le> 2
   \<and> distinct (map (\<lambda>c. subscript c ''id'') example_chunks)
   \<and> fst (build_invoice_vectordb example_encode example_chunks example_store example_name 1)
       = Inr example_coll
   \<and> build_invoice_vectordb example_encode example_chunks example_store example_name 2
       = (Inr example_coll, example_store(example_name \<mapsto> example_coll))
   \<and> length example_coll = length example_chunks"
proof -
  have h1: "embeds_each example_encode example_emb"
    by (simp add: embeds_each_def example_encode_def)
  have h2: "(1::int) \<le> 1" and h3: "(1::int) \<le> 2" by simp_all
  have h4: "distinct (map (\<lambda>c. subscript c ''id'') example_chunks)" by code_simp
  have h5: "fst (build_invoice_vectordb example_encode example_chunks example_store example_name 1)
       = Inr example_coll" by code_simp
  from batch_size_irrelevant [OF h1 h2 h3 h4 h5] h1 h2 h3 h4 h5 show ?thesis by blast
qed

text \<open>
  C7 as stated, for every chunk list and whatever the provider does, fails twice.  A build
  that raises keeps the batches stored before the failure: with a second chunk that has no
  text, batch size 1 leaves the first chunk in the collection and batch size 2 leaves the
  collection empty.  And with a provider whose embedding of a text depends on its batch,
  both builds succeed with different embeddings.
\<close>

theorem batch_boundaries_counterexample:
  "snd (build_invoice_vectordb example_encode [example_chunk ''invoice_0'', example_bad_chunk]
          Map.empty example_name 1) example_name
     = Some [(''invoice_0'',
              (28, JStr (''Invoice: a.png'' @ nl @ nl @ ''Vendor: Acme''), example_meta))]
   \<and> snd (build_invoice_vectordb example_encode [example_chunk ''invoice_0'', example_bad_chunk]
          Map.empty example_name 2) example_name
     = Some []
   \<and> fst (build_invoice_vectordb example_batch_encode
          [example_chunk ''invoice_0'', example_chunk ''invoice_1''] Map.empty example_name 1)
     = Inr [(''invoice_0'',
             (1, JStr (''Invoice: a.png'' @ nl @ nl @ ''Vendor: Acme''), example_meta)),
            (''invoice_1'',
             (1, JStr (''Invoice: a.png'' @ nl @ nl @ ''Vendor: Acme''), example_meta))]
   \<and> fst (build_invoice_vectordb example_batch_encode
          [example_chunk ''invoice_0'', example_chunk ''invoice_1''] Map.empty example_name 2)
     = Inr [(''invoice_0'',
             (2, JStr (''Invoice: a.png'' @ nl @ nl @ ''Vendor: Acme''), example_meta)),
            (''invoice_1'',
             (2, JStr (''Invoice: a.png'' @ nl @ nl @ ''Vendor: Acme''), example_meta))]"
  by code_simp

end
